theory Spec2Isabelle
  imports Main "HOL-Library.Sublist" "HOL-Library.Word"
begin

unbundle bit_operations_syntax

section \<open>Python strings\<close>

text \<open>
  A Python \<open>str\<close> is a sequence of code points. The model is \<^typ>\<open>string\<close>, whose
  characters are the code points below 256; the character tables below are those of
  Python's \<open>str.isspace\<close>, \<open>str.isalnum\<close> and \<open>str.lower\<close> on that range.
\<close>

definition LF :: char where
  "LF = CHR 0x0A"

definition CR :: char where
  "CR = CHR 0x0D"

definition isspace :: "char \<Rightarrow> bool" where
  "isspace c = (let n = (of_char c :: nat) in
     (9 \<le> n \<and> n \<le> 13) \<or> (28 \<le> n \<and> n \<le> 32) \<or> n = 133 \<or> n = 160)"

definition isalnum :: "char \<Rightarrow> bool" where
  "isalnum c = (let n = (of_char c :: nat) in
     (48 \<le> n \<and> n \<le> 57) \<or> (65 \<le> n \<and> n \<le> 90) \<or> (97 \<le> n \<and> n \<le> 122) \<or>
     n = 170 \<or> n = 178 \<or> n = 179 \<or> n = 181 \<or> n = 185 \<or> n = 186 \<or>
     (188 \<le> n \<and> n \<le> 190) \<or> (192 \<le> n \<and> n \<le> 214) \<or>
     (216 \<le> n \<and> n \<le> 246) \<or> (248 \<le> n \<and> n \<le> 255))"

definition lower_char :: "char \<Rightarrow> char" where
  "lower_char c = (let n = (of_char c :: nat) in
     if (65 \<le> n \<and> n \<le> 90) \<or> (192 \<le> n \<and> n \<le> 214) \<or> (216 \<le> n \<and> n \<le> 222)
     then char_of (n + 32) else c)"

definition lower :: "string \<Rightarrow> string" where
  "lower s = map lower_char s"

text \<open>\<open>sub in s\<close>: \<open>sub\<close> occurs in \<open>s\<close> as a contiguous run.\<close>

fun contains :: "string \<Rightarrow> string \<Rightarrow> bool" where
  "contains sub [] = (sub = [])"
| "contains sub (c # cs) = (prefix sub (c # cs) \<or> contains sub cs)"

text \<open>\<open>s.rstrip()\<close>, \<open>s.lstrip()\<close> and \<open>s.strip()\<close> with no argument remove whitespace.\<close>

definition lstrip :: "string \<Rightarrow> string" where
  "lstrip s = dropWhile isspace s"

definition rstrip :: "string \<Rightarrow> string" where
  "rstrip s = rev (dropWhile isspace (rev s))"

definition strip :: "string \<Rightarrow> string" where
  "strip s = rstrip (lstrip s)"

section \<open>The relevance filter\<close>

definition KEYWORDS :: "string list" where
  "KEYWORDS =
    [''city council'', ''ordinance'', ''zoning'', ''budget'', ''millage'', ''public works'',
     ''sewerage & water board'', ''swbno'', ''dpw'', ''planning commission'', ''permit'',
     ''tax'', ''mayor'', ''poll'', ''school board'', ''reform'', ''bond'', ''levy'',
     ''land use'', ''infrastructure'', ''litigation'', ''city hall'', ''municipal'',
     ''nopd'', ''nofd'', ''crime'', ''public safety'', ''drainage'', ''flooding'',
     ''affordable housing'', ''rta'', ''streetcar'', ''neighborhood'', ''city attorney'',
     ''audit'', ''tourism'', ''economic development'', ''property tax'', ''blight'',
     ''sanitation'', ''street repair'', ''pothole'', ''traffic'', ''parking'']"

text \<open>
  \<open>looks_relevant(title, text)\<close>: the blob is the title, a newline and the text, lower-cased;
  the result is whether the list of matched keywords is non-empty. The status line printed on
  either branch is not modelled.
\<close>

definition looks_relevant :: "string \<Rightarrow> string \<Rightarrow> bool" where
  "looks_relevant title text =
     (let blob = lower (title @ [LF] @ text);
          matched_keywords = filter (\<lambda>k. contains k blob) KEYWORDS
      in matched_keywords \<noteq> [])"

section \<open>File names\<close>

text \<open>
  The two lines of \<open>main\<close> that clean the title: keep the characters that are alphanumeric or
  one of space, hyphen and underscore, strip trailing whitespace, then cut at 50 characters.
\<close>

definition keep_char :: "char \<Rightarrow> bool" where
  "keep_char c = (isalnum c \<or> c \<in> {CHR '' '', CHR ''-'', CHR ''_''})"

definition clean_title :: "string \<Rightarrow> string" where
  "clean_title title = take 50 (rstrip (filter keep_char title))"

section \<open>Article identifiers\<close>

text \<open>
  \<open>sha16(s)\<close> is \<open>hashlib.sha256(s.encode("utf-8")).hexdigest()[:16]\<close>. The library
  calls are written out: the UTF-8 encoding of code points below 256 (one byte below 128, two
  bytes from 128 on), SHA-256 as FIPS 180-4 defines it, on 32-bit words with wrapping
  addition, and the digest printed as lower-case hexadecimal, most significant digit first.
\<close>

type_synonym byte = "8 word"

type_synonym w32 = "32 word"

type_synonym hash_state = "w32 \<times> w32 \<times> w32 \<times> w32 \<times> w32 \<times> w32 \<times> w32 \<times> w32"

definition encode_utf8_char :: "char \<Rightarrow> byte list" where
  "encode_utf8_char c = (let n = (of_char c :: nat) in
     if n < 128 then [of_nat n]
     else [0xC0 OR of_nat (n div 64), 0x80 OR of_nat (n mod 64)])"

definition encode_utf8 :: "string \<Rightarrow> byte list" where
  "encode_utf8 s = concat (map encode_utf8_char s)"

definition rotr :: "nat \<Rightarrow> w32 \<Rightarrow> w32" where
  "rotr n x = word_rotr n x"

definition Ch :: "w32 \<Rightarrow> w32 \<Rightarrow> w32 \<Rightarrow> w32" where
  "Ch x y z = (x AND y) XOR (NOT x AND z)"

definition Maj :: "w32 \<Rightarrow> w32 \<Rightarrow> w32 \<Rightarrow> w32" where
  "Maj x y z = (x AND y) XOR (x AND z) XOR (y AND z)"

definition big_sigma0 :: "w32 \<Rightarrow> w32" where
  "big_sigma0 x = rotr 2 x XOR rotr 13 x XOR rotr 22 x"

definition big_sigma1 :: "w32 \<Rightarrow> w32" where
  "big_sigma1 x = rotr 6 x XOR rotr 11 x XOR rotr 25 x"

definition small_sigma0 :: "w32 \<Rightarrow> w32" where
  "small_sigma0 x = rotr 7 x XOR rotr 18 x XOR drop_bit 3 x"

definition small_sigma1 :: "w32 \<Rightarrow> w32" where
  "small_sigma1 x = rotr 17 x XOR rotr 19 x XOR drop_bit 10 x"

definition sha256_K :: "w32 list" where
  "sha256_K =
    [0x428A2F98, 0x71374491, 0xB5C0FBCF, 0xE9B5DBA5, 0x3956C25B, 0x59F111F1,
     0x923F82A4, 0xAB1C5ED5, 0xD807AA98, 0x12835B01, 0x243185BE, 0x550C7DC3,
     0x72BE5D74, 0x80DEB1FE, 0x9BDC06A7, 0xC19BF174, 0xE49B69C1, 0xEFBE4786,
     0x0FC19DC6, 0x240CA1CC, 0x2DE92C6F, 0x4A7484AA, 0x5CB0A9DC, 0x76F988DA,
     0x983E5152, 0xA831C66D, 0xB00327C8, 0xBF597FC7, 0xC6E00BF3, 0xD5A79147,
     0x06CA6351, 0x14292967, 0x27B70A85, 0x2E1B2138, 0x4D2C6DFC, 0x53380D13,
     0x650A7354, 0x766A0ABB, 0x81C2C92E, 0x92722C85, 0xA2BFE8A1, 0xA81A664B,
     0xC24B8B70, 0xC76C51A3, 0xD192E819, 0xD6990624, 0xF40E3585, 0x106AA070,
     0x19A4C116, 0x1E376C08, 0x2748774C, 0x34B0BCB5, 0x391C0CB3, 0x4ED8AA4A,
     0x5B9CCA4F, 0x682E6FF3, 0x748F82EE, 0x78A5636F, 0x84C87814, 0x8CC70208,
     0x90BEFFFA, 0xA4506CEB, 0xBEF9A3F7, 0xC67178F2]"

definition sha256_H0 :: hash_state where
  "sha256_H0 =
    (0x6A09E667, 0xBB67AE85, 0x3C6EF372, 0xA54FF53A,
     0x510E527F, 0x9B05688C, 0x1F83D9AB, 0x5BE0CD19)"

text \<open>Padding: the byte 0x80, zero bytes up to 56 modulo 64, the bit length on 64 bits.\<close>

definition be64 :: "nat \<Rightarrow> byte list" where
  "be64 n = map (\<lambda>i. ucast (drop_bit (8 * (7 - i)) (of_nat n :: 64 word))) [0..<8]"

definition pad :: "byte list \<Rightarrow> byte list" where
  "pad m = m @ [0x80] @ replicate ((119 - length m mod 64) mod 64) 0 @ be64 (8 * length m)"

function chunks :: "nat \<Rightarrow> 'a list \<Rightarrow> 'a list list" where
  "chunks n xs = (if n = 0 \<or> xs = [] then [] else take n xs # chunks n (drop n xs))"
  by pat_completeness auto
termination
  by (relation "measure (\<lambda>(n, xs). length xs)") auto

definition be32 :: "byte list \<Rightarrow> w32" where
  "be32 bs = foldl (\<lambda>acc b. push_bit 8 acc OR ucast b) 0 bs"

text \<open>The message schedule: 16 words of the block, then 48 more, each from four earlier ones.\<close>

fun extend_schedule :: "nat \<Rightarrow> w32 list \<Rightarrow> w32 list" where
  "extend_schedule 0 w = w"
| "extend_schedule (Suc n) w =
     (let t = length w
      in extend_schedule n
           (w @ [small_sigma1 (w ! (t - 2)) + w ! (t - 7) + small_sigma0 (w ! (t - 15)) + w ! (t - 16)]))"

definition schedule :: "byte list \<Rightarrow> w32 list" where
  "schedule block = extend_schedule 48 (map be32 (chunks 4 block))"

fun sha256_round :: "hash_state \<Rightarrow> w32 \<times> w32 \<Rightarrow> hash_state" where
  "sha256_round (a, b, c, d, e, f, g, h) (k, w) =
     (let T1 = h + big_sigma1 e + Ch e f g + k + w;
          T2 = big_sigma0 a + Maj a b c
      in (T1 + T2, a, b, c, d + T1, e, f, g))"

fun add_state :: "hash_state \<Rightarrow> hash_state \<Rightarrow> hash_state" where
  "add_state (a, b, c, d, e, f, g, h) (a', b', c', d', e', f', g', h') =
     (a + a', b + b', c + c', d + d', e + e', f + f', g + g', h + h')"

definition compress :: "hash_state \<Rightarrow> byte list \<Rightarrow> hash_state" where
  "compress H block = add_state H (foldl sha256_round H (zip sha256_K (schedule block)))"

definition sha256 :: "byte list \<Rightarrow> hash_state" where
  "sha256 m = foldl compress sha256_H0 (chunks 64 (pad m))"

definition hexdigit :: "nat \<Rightarrow> char" where
  "hexdigit n = ''0123456789abcdef'' ! n"

definition hex32 :: "w32 \<Rightarrow> string" where
  "hex32 w = map (\<lambda>i. hexdigit (unat (drop_bit (28 - 4 * i) w AND 0xF))) [0..<8]"

fun hexdigest :: "hash_state \<Rightarrow> string" where
  "hexdigest (a, b, c, d, e, f, g, h) = concat (map hex32 [a, b, c, d, e, f, g, h])"

definition sha16 :: "string \<Rightarrow> string" where
  "sha16 s = take 16 (hexdigest (sha256 (encode_utf8 s)))"

section \<open>The content extractor\<close>

text \<open>
  \<open>extract_text\<close> drives a browser, trafilatura and BeautifulSoup. What those libraries
  return for the rendered page is the input of the model: trafilatura's text (or \<open>None\<close>),
  the title of its metadata (\<open>None\<close> when there is no metadata or no title in it), the
  stripped texts of the \<open>p\<close>, \<open>h2\<close> and \<open>h3\<close> elements of the article element once its
  \<open>script\<close>, \<open>style\<close>, \<open>nav\<close>, \<open>aside\<close>, \<open>header\<close> and \<open>footer\<close> subtrees are removed
  (\<open>None\<close> when neither an \<open>article\<close> element nor an element of a content class is found),
  the stripped texts of every \<open>p\<close> element of the page as it stands when the last stage
  is reached, and the text of the \<open>title\<close> element. The fallback chain over them is the
  code's.
\<close>

record page =
  trafilatura_text :: "string option"
  metadata_title :: "string option"
  article_texts :: "string list option"
  page_paragraphs :: "string list"
  title_tag :: "string option"

text \<open>\<open>sep.join(xs)\<close>\<close>

fun join :: "string \<Rightarrow> string list \<Rightarrow> string" where
  "join sep [] = []"
| "join sep [x] = x"
| "join sep (x # y # ys) = x @ sep @ join sep (y # ys)"

text \<open>\<open>"\n\n".join([p for p in paragraphs if len(p) > 20])\<close>\<close>

definition join_paragraphs :: "string list \<Rightarrow> string" where
  "join_paragraphs paragraphs = join [LF, LF] (filter (\<lambda>p. length p > 20) paragraphs)"

text \<open>\<open>not downloaded or len(downloaded) < 100\<close>\<close>

definition weak :: "string option \<Rightarrow> bool" where
  "weak downloaded = (case downloaded of None \<Rightarrow> True | Some d \<Rightarrow> d = [] \<or> length d < 100)"

definition extract_from_page :: "page \<Rightarrow> string \<times> string" where
  "extract_from_page pg =
     (let downloaded = trafilatura_text pg;
          title = (case metadata_title pg of None \<Rightarrow> [] | Some t \<Rightarrow> t);
          (title, downloaded) =
            (if weak downloaded then
               let downloaded = (case article_texts pg of
                                   Some paragraphs \<Rightarrow> Some (join_paragraphs paragraphs)
                                 | None \<Rightarrow> downloaded);
                   downloaded = (if weak downloaded
                                 then Some (join_paragraphs (page_paragraphs pg))
                                 else downloaded);
                   title = (if title = []
                            then (case title_tag pg of Some t \<Rightarrow> t | None \<Rightarrow> [])
                            else title)
               in (title, downloaded)
             else (title, downloaded));
          text = (case downloaded of None \<Rightarrow> [] | Some d \<Rightarrow> d)
      in (title, text))"

text \<open>
  The structural stage as the spec words it: the paragraphs and sub-headings of at least 20
  characters, joined by blank lines.
\<close>

definition spec_structural_stage :: "string list \<Rightarrow> string" where
  "spec_structural_stage paragraphs =
     join [LF, LF] (filter (\<lambda>p. 20 \<le> length p) paragraphs)"

section \<open>JSON values, errors and the Box folder\<close>

text \<open>
  What \<open>json.loads\<close> returns. An object is the list of its pairs, looked up by key (the
  first pair of a key holds the value). Numbers are the integers: the crawler only tests a
  number for truth and never compares one with an identifier, which is a string.
\<close>

datatype json =
    JNull
  | JBool bool
  | JNum int
  | JStr string
  | JArr "json list"
  | JObj "(string \<times> json) list"

text \<open>The exceptions the modelled code can raise.\<close>

datatype error =
    BoxAPIException
  | JSONDecodeError
  | AttributeError
  | TypeError
  | OSError
  | WebDriverException

text \<open>
  The bytes of a remote file: either the UTF-8 text of a JSON value, which \<open>json.loads\<close>
  reads back as that value, or other bytes, on which \<open>json.loads\<close> raises.
\<close>

datatype content =
    JsonText json
  | Bytes string

record box_item =
  box_name :: string
  box_type :: string
  box_id :: nat
  box_content :: content

datatype box_call =
    GetItems
  | GetContent nat
  | UpdateContents nat content
  | UploadStream string content

text \<open>
  The remote folder \<open>BOX_FOLDER_ID\<close>: its items, whether the service answers, and the calls
  made so far. A call made while the service does not answer raises \<open>BoxAPIException\<close>; so does
  an upload under a name the folder already has, and a call on a file id the folder lacks.
\<close>

record box =
  online :: bool
  folder_items :: "box_item list"
  calls :: "box_call list"

definition called :: "box_call \<Rightarrow> box \<Rightarrow> box" where
  "called c b = b\<lparr>calls := calls b @ [c]\<rparr>"

definition get_items :: "box \<Rightarrow> (error + box_item list) \<times> box" where
  "get_items b =
     (if online b then (Inr (folder_items b), called GetItems b)
      else (Inl BoxAPIException, called GetItems b))"

definition file_content :: "nat \<Rightarrow> box \<Rightarrow> (error + content) \<times> box" where
  "file_content fid b =
     (case find (\<lambda>item. box_id item = fid) (folder_items b) of
        Some item \<Rightarrow>
          if online b then (Inr (box_content item), called (GetContent fid) b)
          else (Inl BoxAPIException, called (GetContent fid) b)
      | None \<Rightarrow> (Inl BoxAPIException, called (GetContent fid) b))"

definition update_contents_with_stream :: "nat \<Rightarrow> content \<Rightarrow> box \<Rightarrow> (error + unit) \<times> box" where
  "update_contents_with_stream fid stream b =
     (if online b \<and> fid \<in> set (map box_id (folder_items b))
      then (Inr (), called (UpdateContents fid stream)
              (b\<lparr>folder_items :=
                   map (\<lambda>item. if box_id item = fid then item\<lparr>box_content := stream\<rparr> else item)
                     (folder_items b)\<rparr>))
      else (Inl BoxAPIException, called (UpdateContents fid stream) b))"

definition fresh_id :: "box_item list \<Rightarrow> nat" where
  "fresh_id its = Suc (foldr max (map box_id its) 0)"

definition upload_stream :: "content \<Rightarrow> string \<Rightarrow> box \<Rightarrow> (error + unit) \<times> box" where
  "upload_stream stream name b =
     (if online b \<and> name \<notin> set (map box_name (folder_items b))
      then (Inr (), called (UploadStream name stream)
              (b\<lparr>folder_items := folder_items b @
                   [\<lparr>box_name = name, box_type = ''file'', box_id = fresh_id (folder_items b),
                     box_content = stream\<rparr>]\<rparr>))
      else (Inl BoxAPIException, called (UploadStream name stream) b))"

text \<open>The loop over the folder's items that stops at the first file of the given name.\<close>

definition find_file :: "string \<Rightarrow> box_item list \<Rightarrow> box_item option" where
  "find_file name its = find (\<lambda>item. box_name item = name \<and> box_type item = ''file'') its"

text \<open>\<open>json.loads(content.decode('utf-8'))\<close>\<close>

fun json_loads :: "content \<Rightarrow> error + json" where
  "json_loads (JsonText data) = Inr data"
| "json_loads (Bytes bs) = Inl JSONDecodeError"

text \<open>\<open>json.dumps(articles, indent=2, ensure_ascii=False).encode('utf-8')\<close>\<close>

definition json_dumps :: "json list \<Rightarrow> content" where
  "json_dumps articles = JsonText (JArr articles)"

section \<open>The ledger\<close>

definition load_articles_from_box :: "box \<Rightarrow> (error + json list) \<times> box" where
  "load_articles_from_box b =
     (case get_items b of
        (Inl e, b1) \<Rightarrow> (Inl e, b1)
      | (Inr its, b1) \<Rightarrow>
          (case find_file ''articles.json'' its of
             Some articles_file \<Rightarrow>
               (case file_content (box_id articles_file) b1 of
                  (Inl e, b2) \<Rightarrow> (Inl e, b2)
                | (Inr content, b2) \<Rightarrow>
                    (case json_loads content of
                       Inl e \<Rightarrow> (Inl e, b2)
                     | Inr data \<Rightarrow>
                         (Inr (case data of JArr articles \<Rightarrow> articles | _ \<Rightarrow> []), b2)))
           | None \<Rightarrow>
               (case upload_stream (json_dumps []) ''articles.json'' b1 of
                  (Inl e, b2) \<Rightarrow> (Inl e, b2)
                | (Inr u, b2) \<Rightarrow> (Inr [], b2))))"

text \<open>\<open>article.get('id')\<close>: on a dict the value, \<open>None\<close> when the key is absent; on anything
  else an \<open>AttributeError\<close>.\<close>

fun dict_get :: "json \<Rightarrow> string \<Rightarrow> error + json" where
  "dict_get (JObj kvs) k = Inr (case map_of kvs k of None \<Rightarrow> JNull | Some v \<Rightarrow> v)"
| "dict_get other k = Inl AttributeError"

text \<open>Python's truth value of a JSON value, and whether a set can hold it.\<close>

fun truthy :: "json \<Rightarrow> bool" where
  "truthy JNull = False"
| "truthy (JBool b) = b"
| "truthy (JNum n) = (n \<noteq> 0)"
| "truthy (JStr s) = (s \<noteq> [])"
| "truthy (JArr xs) = (xs \<noteq> [])"
| "truthy (JObj kvs) = (kvs \<noteq> [])"

fun hashable :: "json \<Rightarrow> bool" where
  "hashable (JArr xs) = False"
| "hashable (JObj kvs) = False"
| "hashable other = True"

text \<open>\<open>{article.get('id') for article in articles if article.get('id')}\<close>\<close>

fun get_seen_urls :: "json list \<Rightarrow> error + json set" where
  "get_seen_urls [] = Inr {}"
| "get_seen_urls (article # articles) =
     (case dict_get article ''id'' of
        Inl e \<Rightarrow> Inl e
      | Inr v \<Rightarrow>
          if truthy v then
            (if hashable v then
               (case get_seen_urls articles of Inl e \<Rightarrow> Inl e | Inr seen \<Rightarrow> Inr (insert v seen))
             else Inl TypeError)
          else get_seen_urls articles)"

definition save_articles_to_box :: "json list \<Rightarrow> box \<Rightarrow> (error + unit) \<times> box" where
  "save_articles_to_box articles b =
     (case get_items b of
        (Inl e, b1) \<Rightarrow> (Inl e, b1)
      | (Inr its, b1) \<Rightarrow>
          (case find_file ''articles.json'' its of
             Some articles_file \<Rightarrow>
               update_contents_with_stream (box_id articles_file) (json_dumps articles) b1
           | None \<Rightarrow> upload_stream (json_dumps articles) ''articles.json'' b1))"

definition box_upload_file :: "string \<Rightarrow> string \<Rightarrow> box \<Rightarrow> (error + unit) \<times> box" where
  "box_upload_file file_bytes box_filename b =
     (case get_items b of
        (Inl e, b1) \<Rightarrow> (Inl e, b1)
      | (Inr its, b1) \<Rightarrow>
          (case find_file box_filename its of
             Some existing_file \<Rightarrow>
               update_contents_with_stream (box_id existing_file) (Bytes file_bytes) b1
           | None \<Rightarrow> upload_stream (Bytes file_bytes) box_filename b1))"

text \<open>What the folder holds as the ledger: the content of its first file \<open>articles.json\<close>.\<close>

definition ledger_document :: "box \<Rightarrow> content option" where
  "ledger_document b = map_option box_content (find_file ''articles.json'' (folder_items b))"

section \<open>Article records and documents\<close>

text \<open>What \<open>fetch_rss_entries\<close> yields for a feed entry; the link may be missing.\<close>

record feed_item =
  item_title :: string
  item_url :: "string option"
  item_published :: string
  item_source :: string

text \<open>The dict \<open>rec\<close> that \<open>main\<close> builds, with its keys in the order of the source.\<close>

record article =
  rec_id :: string
  rec_source :: string
  rec_url :: string
  rec_title :: string
  rec_published :: string
  rec_saved_at :: string
  rec_content_preview :: string

definition to_json :: "article \<Rightarrow> json" where
  "to_json rec = JObj
     [(''id'', JStr (rec_id rec)), (''source'', JStr (rec_source rec)),
      (''url'', JStr (rec_url rec)), (''title'', JStr (rec_title rec)),
      (''published'', JStr (rec_published rec)), (''saved_at'', JStr (rec_saved_at rec)),
      (''content_preview'', JStr (rec_content_preview rec))]"

text \<open>
  \<open>record_md\<close>: the f-string, line by line. The document is kept as text: its UTF-8 bytes
  decode to the same text.
\<close>

definition record_md :: "article \<Rightarrow> string \<Rightarrow> string" where
  "record_md rec full_text =
     ''---'' @ [LF] @
     ''source: '' @ rec_source rec @ [LF] @
     ''title: '' @ rec_title rec @ [LF] @
     ''url: '' @ rec_url rec @ [LF] @
     ''published: '' @ rec_published rec @ [LF] @
     ''saved_at: '' @ rec_saved_at rec @ [LF] @
     ''---'' @ [LF] @
     [LF] @
     full_text @ [LF]"

text \<open>
  The file name of \<open>main\<close>: \<open>published_date\<close> is the first 10 characters of the published
  field when that is non-empty and today's ISO date otherwise.
\<close>

definition published_date :: "string \<Rightarrow> string \<Rightarrow> string" where
  "published_date published today = (if published \<noteq> [] then take 10 published else today)"

definition md_filename :: "string \<Rightarrow> string \<Rightarrow> string \<Rightarrow> string \<Rightarrow> string" where
  "md_filename published today key title =
     published_date published today @ ''_'' @ key @ ''_'' @ clean_title title @ ''.md''"

text \<open>The form \<open>YYYY-MM-DD\<close>: four digits, a hyphen, two digits, a hyphen, two digits.\<close>

definition is_digit :: "char \<Rightarrow> bool" where
  "is_digit c = (c \<in> set ''0123456789'')"

fun is_iso_date :: "string \<Rightarrow> bool" where
  "is_iso_date [y1, y2, y3, y4, h1, m1, m2, h2, d1, d2] =
     (is_digit y1 \<and> is_digit y2 \<and> is_digit y3 \<and> is_digit y4 \<and> h1 = CHR ''-'' \<and>
      is_digit m1 \<and> is_digit m2 \<and> h2 = CHR ''-'' \<and> is_digit d1 \<and> is_digit d2)"
| "is_iso_date other = False"

section \<open>The pipeline driver\<close>

text \<open>
  What the world answers while one feed item is processed: the rendered page or the exception
  of the browser session, the clock (\<open>datetime.now\<close> in ISO form, \<open>date.today\<close> in ISO form),
  whether the local file can be written, and whether Box answers during the upload.
\<close>

record response =
  rendered :: "error + page"
  now :: string
  today :: string
  disk_ok :: bool
  box_online :: bool

definition extract_text :: "response \<Rightarrow> error + string \<times> string" where
  "extract_text resp =
     (case rendered resp of Inl e \<Rightarrow> Inl e | Inr pg \<Rightarrow> Inr (extract_from_page pg))"

text \<open>
  The state of the loop of \<open>main\<close>: the seen set, the new records, the Box folder and the
  files written to the local directory \<open>out\<close>. The counters that only feed the printed
  summary are left out, and so is the pause after each saved article.
\<close>

record run_state =
  seen :: "json set"
  new_articles :: "article list"
  remote :: box
  out :: "string \<rightharpoonup> string"

definition content_preview :: "string \<Rightarrow> string" where
  "content_preview full_text =
     (if length full_text > 200 then take 200 full_text @ ''...'' else full_text)"

text \<open>
  The body of the \<open>try\<close> block for one item. An exception leaves the block with the effects
  made so far and the loop goes on: that is the state returned.
\<close>

definition try_item :: "feed_item \<Rightarrow> string \<Rightarrow> string \<Rightarrow> response \<Rightarrow> run_state \<Rightarrow> run_state" where
  "try_item item url key resp st =
     (case extract_text resp of
        Inl e \<Rightarrow> st
      | Inr (title_ext, text) \<Rightarrow>
          let title = (if title_ext \<noteq> [] then title_ext else item_title item) in
          if \<not> looks_relevant title text then st
          else
            let full_text = strip text;
                rec = \<lparr>rec_id = key, rec_source = item_source item, rec_url = url,
                       rec_title = title, rec_published = item_published item,
                       rec_saved_at = now resp,
                       rec_content_preview = content_preview full_text\<rparr>;
                filename = md_filename (rec_published rec) (today resp) key title
            in
              if \<not> disk_ok resp then st
              else
                let st1 = st\<lparr>out := (out st)(filename \<mapsto> record_md rec full_text)\<rparr> in
                (case box_upload_file (record_md rec full_text) filename
                        ((remote st1)\<lparr>online := box_online resp\<rparr>) of
                   (Inl e, b) \<Rightarrow> st1\<lparr>remote := b\<rparr>
                 | (Inr u, b) \<Rightarrow>
                     st1\<lparr>remote := b,
                         new_articles := new_articles st1 @ [rec],
                         seen := insert (JStr key) (seen st1)\<rparr>))"

definition process_item :: "run_state \<Rightarrow> feed_item \<times> response \<Rightarrow> run_state" where
  "process_item st entry =
     (case entry of (item, resp) \<Rightarrow>
        (case item_url item of
           None \<Rightarrow> st
         | Some url \<Rightarrow>
             if url = [] then st
             else
               let key = sha16 url in
               if JStr key \<in> seen st then st
               else try_item item url key resp st))"

text \<open>
  The end of \<open>main\<close>: the ledger is extended and saved only when there are new records.
  The result is the list \<open>articles\<close> as it stands and the folder.
\<close>

definition finalize :: "json list \<Rightarrow> article list \<Rightarrow> box \<Rightarrow> (error + json list) \<times> box" where
  "finalize articles new b =
     (if new \<noteq> [] then
        (let articles = articles @ map to_json new in
         case save_articles_to_box articles b of
           (Inl e, b1) \<Rightarrow> (Inl e, b1)
         | (Inr u, b1) \<Rightarrow> (Inr articles, b1))
      else (Inr articles, b))"

text \<open>
  \<open>main\<close>, from the loading of the ledger on: the feed is the list of the entries that
  \<open>fetch_rss_entries\<close> yields, each with what the world answers for it; \<open>online_at_end\<close> is
  whether Box answers when the ledger is saved.
\<close>

definition main :: "box \<Rightarrow> (feed_item \<times> response) list \<Rightarrow> bool \<Rightarrow> (error + json list) \<times> run_state" where
  "main b feed online_at_end =
     (case load_articles_from_box b of
        (Inl e, b1) \<Rightarrow> (Inl e, \<lparr>seen = {}, new_articles = [], remote = b1, out = Map.empty\<rparr>)
      | (Inr articles, b1) \<Rightarrow>
          (case get_seen_urls articles of
             Inl e \<Rightarrow> (Inl e, \<lparr>seen = {}, new_articles = [], remote = b1, out = Map.empty\<rparr>)
           | Inr seen0 \<Rightarrow>
               let st = foldl process_item
                          \<lparr>seen = seen0, new_articles = [], remote = b1, out = Map.empty\<rparr> feed
               in (case finalize articles (new_articles st) ((remote st)\<lparr>online := online_at_end\<rparr>) of
                     (r, b2) \<Rightarrow> (r, st\<lparr>remote := b2\<rparr>))))"

section \<open>The reader of the embedding script\<close>

text \<open>
  \<open>make_vector_db\<close> opens a document in text mode, which turns every \<open>\r\n\<close> and every
  lone \<open>\r\<close> into \<open>\n\<close>.
\<close>

fun universal_newlines :: "string \<Rightarrow> string" where
  "universal_newlines [] = []"
| "universal_newlines [c] = (if c = CR then [LF] else [c])"
| "universal_newlines (c # d # s) =
     (if c = CR \<and> d = LF then LF # universal_newlines s
      else if c = CR then LF # universal_newlines (d # s)
      else c # universal_newlines (d # s))"

text \<open>
  \<open>s.split(sep)\<close> for a non-empty separator: the pieces between the occurrences of \<open>sep\<close>,
  found from left to right without overlap. The accumulator holds the current piece, reversed.
\<close>

function split_aux :: "string \<Rightarrow> string \<Rightarrow> string \<Rightarrow> string list" where
  "split_aux sep acc s =
     (if s = [] then [rev acc]
      else if sep \<noteq> [] \<and> prefix sep s then rev acc # split_aux sep [] (drop (length sep) s)
      else split_aux sep (hd s # acc) (tl s))"
  by pat_completeness auto
termination
  by (relation "measure (\<lambda>(sep, acc, s). length s)") auto

definition split :: "string \<Rightarrow> string \<Rightarrow> string list" where
  "split sep s = split_aux sep [] s"

text \<open>\<open>key, val = line.split(':', 1)\<close> on a line that holds a colon: cut at the first one.\<close>

definition split_colon_once :: "string \<Rightarrow> string \<times> string" where
  "split_colon_once line =
     (takeWhile (\<lambda>c. c \<noteq> CHR '':'') line, drop 1 (dropWhile (\<lambda>c. c \<noteq> CHR '':'') line))"

definition parse_frontmatter_line :: "(string \<rightharpoonup> string) \<Rightarrow> string \<Rightarrow> (string \<rightharpoonup> string)" where
  "parse_frontmatter_line frontmatter line =
     (if CHR '':'' \<in> set line
      then (case split_colon_once line of (key, val) \<Rightarrow> frontmatter(strip key \<mapsto> strip val))
      else frontmatter)"

text \<open>
  The body of the loop of \<open>make_vector_db\<close> up to the article text: \<open>None\<close> when the document
  has fewer than three parts and the loop goes on to the next file.
\<close>

definition parse_md :: "string \<Rightarrow> ((string \<rightharpoonup> string) \<times> string) option" where
  "parse_md content =
     (let parts = split ''---'' content in
      if length parts < 3 then None
      else
        let frontmatter = foldl parse_frontmatter_line Map.empty (split [LF] (strip (parts ! 1)));
            article_text = strip (parts ! 2)
        in Some (frontmatter, article_text))"

text \<open>The document as the crawler writes it and the embedding script reads it back.\<close>

definition read_document :: "article \<Rightarrow> string \<Rightarrow> ((string \<rightharpoonup> string) \<times> string) option" where
  "read_document rec body = parse_md (universal_newlines (record_md rec body))"

text \<open>The frontmatter fields of a record.\<close>

definition frontmatter_of :: "article \<Rightarrow> (string \<rightharpoonup> string)" where
  "frontmatter_of rec =
     [''source'' \<mapsto> rec_source rec, ''title'' \<mapsto> rec_title rec, ''url'' \<mapsto> rec_url rec,
      ''published'' \<mapsto> rec_published rec, ''saved_at'' \<mapsto> rec_saved_at rec]"

section \<open>Notions used in the statements\<close>

text \<open>\<open>isinstance(data, list)\<close>\<close>

fun is_list :: "json \<Rightarrow> bool" where
  "is_list (JArr xs) = True"
| "is_list other = False"

text \<open>The id field of a ledger record, as \<open>get\<close> reads it: \<open>None\<close> when there is none.\<close>

definition id_of :: "json \<Rightarrow> json" where
  "id_of article = (case dict_get article ''id'' of Inr v \<Rightarrow> v | Inl e \<Rightarrow> JNull)"

text \<open>A folder that holds files only.\<close>

definition only_files :: "box \<Rightarrow> bool" where
  "only_files b = list_all (\<lambda>item. box_type item = ''file'') (folder_items b)"

text \<open>
  A field value the reader gives back as it is: no newline, no carriage return, no run of
  three hyphens, no whitespace at either end. For a body: no carriage return, no run of three
  hyphens, no whitespace at either end.
\<close>

definition plain_field :: "string \<Rightarrow> bool" where
  "plain_field v =
     (LF \<notin> set v \<and> CR \<notin> set v \<and> \<not> contains ''---'' v \<and> strip v = v)"

definition plain_body :: "string \<Rightarrow> bool" where
  "plain_body body = (CR \<notin> set body \<and> \<not> contains ''---'' body \<and> strip body = body)"

section \<open>Example data\<close>

text \<open>
  A page for the fallback chain: a short primary text and five article paragraphs of 21
  characters.
\<close>

definition fixture_page :: page where
  "fixture_page =
     \<lparr>trafilatura_text = Some ''too short'', metadata_title = None,
      article_texts = Some (replicate 5 (replicate 21 CHR ''a'')),
      page_paragraphs = [replicate 120 CHR ''b''], title_tag = Some ''A title''\<rparr>"

text \<open>A folder whose \<open>articles.json\<close> holds a JSON object instead of a list.\<close>

definition object_ledger_file :: box_item where
  "object_ledger_file =
     \<lparr>box_name = ''articles.json'', box_type = ''file'', box_id = 7,
      box_content = JsonText (JObj [(''id'', JStr ''0123456789abcdef'')])\<rparr>"

definition object_ledger_box :: box where
  "object_ledger_box = \<lparr>online = True, folder_items = [object_ledger_file], calls = []\<rparr>"

text \<open>A ledger of two records in its folder, and a new record.\<close>

definition ledger_ab :: "json list" where
  "ledger_ab = [JObj [(''id'', JStr ''a'')], JObj [(''id'', JStr ''b'')]]"

definition ledger_ab_box :: box where
  "ledger_ab_box =
     \<lparr>online = True,
      folder_items = [\<lparr>box_name = ''articles.json'', box_type = ''file'', box_id = 1,
                       box_content = JsonText (JArr ledger_ab)\<rparr>],
      calls = []\<rparr>"

definition record_c :: article where
  "record_c =
     \<lparr>rec_id = ''c'', rec_source = ''The Lens'', rec_url = ''https://example.com/c'',
      rec_title = ''Zoning vote'', rec_published = ''2024-03-05T10:00:00'',
      rec_saved_at = ''2024-03-06T08:00:00+00:00'', rec_content_preview = ''The council''\<rparr>"

text \<open>
  A feed entry as the configured feeds give it (an RSS date in the published field), the page
  rendered for it, whose text mentions zoning, and the answers of the world while it is
  processed.
\<close>

definition example_page :: page where
  "example_page =
     \<lparr>trafilatura_text = Some
        (''The board of zoning adjustments heard an appeal on Tuesday over a short-term '' @
         ''rental permit in the Marigny, and deferred its vote.''),
      metadata_title = Some ''Board hears rental appeal'',
      article_texts = None, page_paragraphs = [], title_tag = None\<rparr>"

definition example_item :: feed_item where
  "example_item =
     \<lparr>item_title = ''Board hears rental appeal'', item_url = Some ''https://example.com/a'',
      item_published = ''Tue, 05 Mar 2024 10:00:00 +0000'', item_source = ''The Lens''\<rparr>"

definition example_response :: response where
  "example_response =
     \<lparr>rendered = Inr example_page, now = ''2024-03-06T08:00:00+00:00'',
      today = ''2024-03-06'', disk_ok = True, box_online = True\<rparr>"

definition example_record :: article where
  "example_record =
     \<lparr>rec_id = sha16 ''https://example.com/a'', rec_source = ''The Lens'',
      rec_url = ''https://example.com/a'', rec_title = ''Board hears rental appeal'',
      rec_published = ''Tue, 05 Mar 2024 10:00:00 +0000'',
      rec_saved_at = ''2024-03-06T08:00:00+00:00'',
      rec_content_preview =
        ''The board of zoning adjustments heard an appeal on Tuesday over a short-term '' @
        ''rental permit in the Marigny, and deferred its vote.''\<rparr>"

text \<open>A ledger record that has lost its id field.\<close>

definition record_without_id :: json where
  "record_without_id = JObj [(''url'', JStr ''https://example.com/a'')]"

section \<open>Facts about strings\<close>

lemma contains_sublist: "contains sub s \<longleftrightarrow> sublist sub s"
  by (induction s) (auto simp: sublist_Cons_right)

lemma sublist_around_sep:
  assumes "c \<notin> set k"
  shows "sublist k (a @ [c] @ b) \<longleftrightarrow> sublist k a \<or> sublist k b"
proof
  assume "sublist k (a @ [c] @ b)"
  then obtain ps ss where eq: "a @ c # b = ps @ k @ ss"
    by (auto simp: sublist_def)
  then consider us where "a = ps @ us" "us @ c # b = k @ ss"
    | us where "a @ us = ps" "c # b = us @ k @ ss" "us \<noteq> []"
    by (auto simp: append_eq_append_conv2) metis
  then show "sublist k a \<or> sublist k b"
  proof cases
    case 1
    from 1(2) consider vs where "us = k @ vs"
      | vs where "us @ vs = k" "c # b = vs @ ss" "vs \<noteq> []"
      by (auto simp: append_eq_append_conv2) metis
    then show ?thesis
    proof cases
      case 1
      with \<open>a = ps @ us\<close> show ?thesis by (auto simp: sublist_def)
    next
      case 2
      then have "c \<in> set k" by (cases vs) auto
      with assms show ?thesis by simp
    qed
  next
    case 2
    then obtain us' where "us = c # us'" "b = us' @ k @ ss" by (cases us) auto
    then show ?thesis by (auto simp: sublist_def)
  qed
next
  assume "sublist k a \<or> sublist k b"
  then show "sublist k (a @ [c] @ b)"
    by (auto simp: sublist_append sublist_Cons_right)
qed

lemma lower_append: "lower (a @ b) = lower a @ lower b"
  by (simp add: lower_def)

lemma lower_LF: "lower (LF # s) = LF # lower s"
  by (simp add: lower_def lower_char_def LF_def)

lemma isalnum_not_isspace: "isalnum c \<Longrightarrow> \<not> isspace c"
  by (auto simp: isalnum_def isspace_def Let_def)

lemma keep_char_isspace: "keep_char c \<Longrightarrow> isspace c \<longleftrightarrow> c = CHR '' ''"
  by (auto simp: keep_char_def isspace_def dest: isalnum_not_isspace)

lemma rstrip_kept:
  assumes "\<forall>c \<in> set s. keep_char c"
  shows "rstrip s = rev (dropWhile (\<lambda>c. c = CHR '' '') (rev s))"
proof -
  have "dropWhile isspace (rev s) = dropWhile (\<lambda>c. c = CHR '' '') (rev s)"
    by (rule dropWhile_cong) (use assms keep_char_isspace in auto)
  then show ?thesis by (simp add: rstrip_def)
qed

lemma set_rstrip: "set (rstrip s) \<subseteq> set s"
  using set_dropWhileD [of _ isspace "rev s"] by (auto simp: rstrip_def)

section \<open>The relevance filter: results\<close>

lemma LF_notin_KEYWORDS: "k \<in> set KEYWORDS \<Longrightarrow> LF \<notin> set k"
  unfolding KEYWORDS_def LF_def by auto

lemma looks_relevant_blob:
  "looks_relevant title text \<longleftrightarrow>
     (\<exists>k \<in> set KEYWORDS. sublist k (lower (title @ [LF] @ text)))"
  by (simp add: looks_relevant_def Let_def filter_empty_conv contains_sublist)

text \<open>
  Claim C6, as the code has it. \<open>looks_relevant\<close> is true exactly when some keyword is a
  substring of the lower-cased blob, and the blob is the title, a newline and the body: as no
  keyword holds a newline, that is exactly when some keyword is a substring of the lower-cased
  title or of the lower-cased body. It is true for the title "City Council" with an empty body
  and false for the title "cats" with the body "we like cats".
\<close>

theorem looks_relevant_keyword_match:
  "(looks_relevant title text \<longleftrightarrow>
      (\<exists>k \<in> set KEYWORDS. sublist k (lower (title @ [LF] @ text)))) \<and>
   (looks_relevant title text \<longleftrightarrow>
      (\<exists>k \<in> set KEYWORDS. sublist k (lower title) \<or> sublist k (lower text))) \<and>
   looks_relevant ''City Council'' [] \<and>
   \<not> looks_relevant ''cats'' ''we like cats''"
proof -
  have split: "sublist k (lower (title @ [LF] @ text)) \<longleftrightarrow>
      sublist k (lower title) \<or> sublist k (lower text)" if "k \<in> set KEYWORDS" for k
    using sublist_around_sep [OF LF_notin_KEYWORDS [OF that], of "lower title" "lower text"]
    by (simp add: lower_append lower_LF)
  have a: "looks_relevant title text \<longleftrightarrow>
      (\<exists>k \<in> set KEYWORDS. sublist k (lower title) \<or> sublist k (lower text))"
    unfolding looks_relevant_blob using split by blast
  have b: "looks_relevant ''City Council'' []" by code_simp
  have c: "\<not> looks_relevant ''cats'' ''we like cats''" by code_simp
  from a b c show ?thesis unfolding looks_relevant_blob [symmetric] by blast
qed

text \<open>
  Claim C6, as the spec words it, fails: with the title "zon" and the body "ing" the keyword
  "zoning" is a substring of the lower-cased concatenation of title and body, and
  \<open>looks_relevant\<close> is false, because the newline stands between the two.
\<close>

theorem looks_relevant_concatenation_counterexample:
  "\<not> (looks_relevant ''zon'' ''ing'' \<longleftrightarrow>
        (\<exists>k \<in> set KEYWORDS. sublist k (lower (''zon'' @ ''ing''))))"
proof -
  have "''zoning'' \<in> set KEYWORDS" by (simp add: KEYWORDS_def)
  moreover have "sublist ''zoning'' (lower (''zon'' @ ''ing''))" by code_simp
  moreover have "\<not> looks_relevant ''zon'' ''ing''" by code_simp
  ultimately show ?thesis by blast
qed

section \<open>File names: results\<close>

text \<open>
  Claim C8. The cleaned title is the title's alphanumerics, spaces, hyphens and underscores,
  in order, without its trailing spaces (the only whitespace left), cut at 50 characters: every
  character of it is one of those, it has at most 50 characters, and the title
  "Budget: 2024/25 Review!" gives "Budget 202425 Review".
\<close>

theorem clean_title_sanitizes:
  "clean_title title =
     take 50 (rev (dropWhile (\<lambda>c. c = CHR '' '') (rev (filter
       (\<lambda>c. isalnum c \<or> c = CHR '' '' \<or> c = CHR ''-'' \<or> c = CHR ''_'') title)))) \<and>
   list_all (\<lambda>c. isalnum c \<or> c = CHR '' '' \<or> c = CHR ''-'' \<or> c = CHR ''_'')
     (clean_title title) \<and>
   length (clean_title title) \<le> 50 \<and>
   clean_title ''Budget: 2024/25 Review!'' = ''Budget 202425 Review''"
proof -
  have k: "keep_char = (\<lambda>c. isalnum c \<or> c = CHR '' '' \<or> c = CHR ''-'' \<or> c = CHR ''_'')"
    by (auto simp: keep_char_def fun_eq_iff)
  have "\<forall>c \<in> set (filter keep_char title). keep_char c" by simp
  then have a: "clean_title title =
      take 50 (rev (dropWhile (\<lambda>c. c = CHR '' '') (rev (filter keep_char title))))"
    by (simp add: clean_title_def rstrip_kept)
  have "set (clean_title title) \<subseteq> set (filter keep_char title)"
    unfolding clean_title_def using set_take_subset set_rstrip by fastforce
  then have b: "list_all keep_char (clean_title title)"
    by (auto simp: list_all_iff)
  have c: "length (clean_title title) \<le> 50" by (simp add: clean_title_def)
  have d: "clean_title ''Budget: 2024/25 Review!'' = ''Budget 202425 Review''" by code_simp
  from a b c d show ?thesis unfolding k by blast
qed

text \<open>
  The cut comes after the trim, so a cleaned title can end with a space: here the 50th kept
  character is one.
\<close>

lemma clean_title_cut_after_trim:
  "clean_title (replicate 49 CHR ''a'' @ '' b'') = replicate 49 CHR ''a'' @ '' ''"
  by code_simp

section \<open>Article identifiers: results\<close>

lemma hexdigit_range: "n < 16 \<Longrightarrow> hexdigit n \<in> set ''0123456789abcdef''"
  unfolding hexdigit_def by (rule nth_mem) simp

lemma unat_low_nibble: "unat (x AND 0xF :: w32) < 16"
proof -
  have "x AND 0xF \<le> 0xF" by (rule word_and_le1)
  then have "unat (x AND 0xF) \<le> unat (0xF :: w32)" by (simp add: word_le_nat_alt)
  then show ?thesis by simp
qed

lemma length_hex32: "length (hex32 w) = 8"
  by (simp add: hex32_def)

lemma set_hex32: "set (hex32 w) \<subseteq> set ''0123456789abcdef''"
  unfolding hex32_def using hexdigit_range [OF unat_low_nibble] by auto

lemma length_hexdigest: "length (hexdigest st) = 64"
  by (cases st rule: hexdigest.cases) (simp add: length_hex32)

lemma set_hexdigest: "set (hexdigest st) \<subseteq> set ''0123456789abcdef''"
  by (cases st rule: hexdigest.cases) (use set_hex32 in auto)

text \<open>
  Claim C7. \<open>sha16\<close> is a function of its argument alone, so equal inputs give equal
  outputs; its result is the first 16 of the 64 hexadecimal digits of the SHA-256 digest of
  the UTF-8 encoding of the string: exactly 16 characters, each one of \<open>0123456789abcdef\<close>.
  The standard test vector "abc" gives the digest's first 16 digits.
\<close>

theorem sha16_sixteen_hex:
  "length (sha16 u) = 16 \<and>
   list_all (\<lambda>c. c \<in> set ''0123456789abcdef'') (sha16 u) \<and>
   sha16 u = take 16 (hexdigest (sha256 (encode_utf8 u))) \<and>
   sha16 ''abc'' = ''ba7816bf8f01cfea''"
proof -
  have a: "length (sha16 u) = 16"
    by (simp add: sha16_def length_hexdigest)
  have "set (sha16 u) \<subseteq> set (hexdigest (sha256 (encode_utf8 u)))"
    unfolding sha16_def by (rule set_take_subset)
  then have "set (sha16 u) \<subseteq> set ''0123456789abcdef''"
    using set_hexdigest by (rule subset_trans)
  then have b: "list_all (\<lambda>c. c \<in> set ''0123456789abcdef'') (sha16 u)"
    unfolding list_all_iff by blast
  have c: "sha16 ''abc'' = ''ba7816bf8f01cfea''" by code_simp
  from a b c show ?thesis by (simp add: sha16_def)
qed

section \<open>The content extractor: results\<close>

text \<open>
  Claim C5, as the code has it. When trafilatura's text is missing or shorter than 100
  characters, an article element is found, and the texts of its paragraphs and sub-headings
  longer than 20 characters (21 or more), joined by blank lines, make at least 100 characters,
  the body returned is that joined text, whatever the paragraphs of the whole page are: the
  all-paragraphs stage is not used.
\<close>

theorem extract_structural_stage_wins:
  assumes "weak (trafilatura_text pg)"
    and "article_texts pg = Some paragraphs"
    and "100 \<le> length (join_paragraphs paragraphs)"
  shows "snd (extract_from_page pg) = join_paragraphs paragraphs \<and>
         snd (extract_from_page (pg\<lparr>page_paragraphs := others\<rparr>)) = join_paragraphs paragraphs"
  using assms by (auto simp: extract_from_page_def weak_def Let_def)

theorem extract_structural_stage_wins_witness:
  "weak (trafilatura_text fixture_page) \<and>
   article_texts fixture_page = Some (replicate 5 (replicate 21 CHR ''a'')) \<and>
   100 \<le> length (join_paragraphs (replicate 5 (replicate 21 CHR ''a''))) \<and>
   snd (extract_from_page fixture_page) = join_paragraphs (replicate 5 (replicate 21 CHR ''a'')) \<and>
   extract_from_page fixture_page \<noteq> (''A title'', join_paragraphs (page_paragraphs fixture_page))"
proof -
  have a: "weak (trafilatura_text fixture_page)" by code_simp
  have b: "article_texts fixture_page = Some (replicate 5 (replicate 21 CHR ''a''))"
    by (simp add: fixture_page_def)
  have c: "100 \<le> length (join_paragraphs (replicate 5 (replicate 21 CHR ''a'')))" by code_simp
  have d: "extract_from_page fixture_page \<noteq>
      (''A title'', join_paragraphs (page_paragraphs fixture_page))" by code_simp
  from a b c d extract_structural_stage_wins [OF a b c] show ?thesis by blast
qed

text \<open>
  Claim C5, as the spec words it, fails on paragraphs of exactly 20 characters: five of them
  joined by blank lines make 108 characters, so the stage the spec describes clears the
  threshold, and the code, which keeps paragraphs longer than 20 characters only, returns an
  empty body.
\<close>

theorem extract_twenty_characters_counterexample:
  "weak (trafilatura_text
      \<lparr>trafilatura_text = None, metadata_title = None,
       article_texts = Some (replicate 5 (replicate 20 CHR ''a'')),
       page_paragraphs = replicate 5 (replicate 20 CHR ''a''), title_tag = None\<rparr>) \<and>
   100 \<le> length (spec_structural_stage (replicate 5 (replicate 20 CHR ''a''))) \<and>
   snd (extract_from_page
      \<lparr>trafilatura_text = None, metadata_title = None,
       article_texts = Some (replicate 5 (replicate 20 CHR ''a'')),
       page_paragraphs = replicate 5 (replicate 20 CHR ''a''), title_tag = None\<rparr>)
     \<noteq> spec_structural_stage (replicate 5 (replicate 20 CHR ''a''))"
  by code_simp

section \<open>The ledger: results\<close>

lemma find_by_id:
  assumes "distinct (map box_id its)" and "find P its = Some f"
  shows "find (\<lambda>item. box_id item = box_id f) its = Some f"
  using assms
proof (induction its)
  case Nil
  then show ?case by simp
next
  case (Cons a its)
  show ?case
  proof (cases "P a")
    case True
    with Cons.prems show ?thesis by simp
  next
    case False
    with Cons.prems have f: "find P its = Some f" by simp
    then have "f \<in> set its" by (auto simp: find_Some_iff)
    with Cons.prems(1) have "box_id a \<noteq> box_id f" by auto
    with Cons f show ?thesis by simp
  qed
qed

text \<open>
  Claim C9. When Box answers, the folder has a file \<open>articles.json\<close> (file ids being
  distinct) and its content parses as a JSON value that is not a list, loading the ledger
  returns the empty list: no error is raised, the value is not returned, and the folder's
  items are left as they are.
\<close>

theorem load_non_list_is_empty:
  assumes "online b"
    and "distinct (map box_id (folder_items b))"
    and "find_file ''articles.json'' (folder_items b) = Some f"
    and "box_content f = JsonText data"
    and "\<not> is_list data"
  shows "fst (load_articles_from_box b) = Inr [] \<and>
         folder_items (snd (load_articles_from_box b)) = folder_items b"
proof -
  have "find (\<lambda>item. box_id item = box_id f) (folder_items b) = Some f"
    using assms(2,3) unfolding find_file_def by (rule find_by_id)
  with assms show ?thesis
    by (cases data)
      (simp_all add: load_articles_from_box_def get_items_def file_content_def called_def)
qed

theorem load_non_list_is_empty_witness:
  "online object_ledger_box \<and>
   distinct (map box_id (folder_items object_ledger_box)) \<and>
   find_file ''articles.json'' (folder_items object_ledger_box) = Some object_ledger_file \<and>
   box_content object_ledger_file = JsonText (JObj [(''id'', JStr ''0123456789abcdef'')]) \<and>
   \<not> is_list (JObj [(''id'', JStr ''0123456789abcdef'')]) \<and>
   fst (load_articles_from_box object_ledger_box) = Inr [] \<and>
   folder_items (snd (load_articles_from_box object_ledger_box)) = folder_items object_ledger_box"
proof -
  have a: "online object_ledger_box" by (simp add: object_ledger_box_def)
  have b: "distinct (map box_id (folder_items object_ledger_box))"
    by (simp add: object_ledger_box_def)
  have c: "find_file ''articles.json'' (folder_items object_ledger_box) = Some object_ledger_file"
    by (simp add: object_ledger_box_def object_ledger_file_def find_file_def)
  have d: "box_content object_ledger_file = JsonText (JObj [(''id'', JStr ''0123456789abcdef'')])"
    by (simp add: object_ledger_file_def)
  have e: "\<not> is_list (JObj [(''id'', JStr ''0123456789abcdef'')])" by simp
  from load_non_list_is_empty [OF a b c d e] a b c d e show ?thesis by blast
qed

lemma update_contents_ok:
  "online b \<Longrightarrow> fid \<in> set (map box_id (folder_items b)) \<Longrightarrow>
     fst (update_contents_with_stream fid c b) = Inr ()"
  by (simp add: update_contents_with_stream_def)

lemma find_file_mem: "find_file name its = Some f \<Longrightarrow> f \<in> set its \<and> box_name f = name \<and> box_type f = ''file''"
  by (auto simp: find_file_def find_Some_iff)

lemma find_file_None_only_files:
  assumes "find_file name its = None" and "list_all (\<lambda>item. box_type item = ''file'') its"
  shows "name \<notin> set (map box_name its)"
  using assms by (auto simp: find_file_def find_None_iff list_all_iff)

lemma box_upload_file_ok:
  assumes "online b" and "only_files b"
  shows "fst (box_upload_file bytes name b) = Inr ()"
proof (cases "find_file name (folder_items b)")
  case None
  with assms find_file_None_only_files [OF None] show ?thesis
    by (simp add: box_upload_file_def get_items_def called_def upload_stream_def only_files_def)
next
  case (Some f)
  with assms find_file_mem [OF Some] show ?thesis
    by (simp add: box_upload_file_def get_items_def called_def update_contents_with_stream_def)
qed

lemma save_articles_to_box_ok:
  assumes "online b" and "only_files b"
  shows "fst (save_articles_to_box articles b) = Inr ()"
proof (cases "find_file ''articles.json'' (folder_items b)")
  case None
  with assms find_file_None_only_files [OF None] show ?thesis
    by (simp add: save_articles_to_box_def get_items_def called_def upload_stream_def only_files_def)
next
  case (Some f)
  with assms find_file_mem [OF Some] show ?thesis
    by (simp add: save_articles_to_box_def get_items_def called_def update_contents_with_stream_def)
qed

lemma find_map_update:
  assumes "find P its = Some f" and "\<And>x. P (g x) = P x"
  shows "find P (map g its) = Some (g f)"
  using assms by (induction its) (auto split: if_splits)

lemma find_append_new:
  assumes "find P its = None" and "P y"
  shows "find P (its @ [y]) = Some y"
  using assms by (induction its) (auto split: if_splits)

lemma save_articles_to_box_document:
  assumes "fst (save_articles_to_box articles b) = Inr u"
  shows "ledger_document (snd (save_articles_to_box articles b)) = Some (json_dumps articles)"
proof (cases "find_file ''articles.json'' (folder_items b)")
  case None
  then have "find_file ''articles.json'' (folder_items b @
      [\<lparr>box_name = ''articles.json'', box_type = ''file'', box_id = fresh_id (folder_items b),
        box_content = json_dumps articles\<rparr>]) =
      Some \<lparr>box_name = ''articles.json'', box_type = ''file'', box_id = fresh_id (folder_items b),
        box_content = json_dumps articles\<rparr>"
    unfolding find_file_def by (rule find_append_new) simp
  with None assms show ?thesis
    by (auto simp: save_articles_to_box_def get_items_def called_def upload_stream_def
        ledger_document_def split: if_splits)
next
  case (Some f)
  let ?g = "\<lambda>item. if box_id item = box_id f then item\<lparr>box_content := json_dumps articles\<rparr> else item"
  from Some have "find_file ''articles.json'' (map ?g (folder_items b)) = Some (?g f)"
    unfolding find_file_def by (rule find_map_update) simp
  with Some assms show ?thesis
    by (auto simp: save_articles_to_box_def get_items_def called_def
        update_contents_with_stream_def ledger_document_def split: if_splits)
qed

text \<open>
  Claim C1. With new records, whenever the save goes through, the list in memory and the
  content of the remote \<open>articles.json\<close> are the existing records followed by the new ones,
  the whole document being replaced (or created); the save goes through when Box answers and
  the folder holds files only. Without new records the folder is returned as it was, its log
  of calls included: nothing is read or written.
\<close>

theorem finalize_appends_and_overwrites:
  "(new \<noteq> [] \<and> fst (finalize E new b) = Inr L \<longrightarrow>
      L = E @ map to_json new \<and>
      ledger_document (snd (finalize E new b)) = Some (JsonText (JArr (E @ map to_json new)))) \<and>
   (new \<noteq> [] \<and> online b \<and> only_files b \<longrightarrow>
      fst (finalize E new b) = Inr (E @ map to_json new)) \<and>
   (new = [] \<longrightarrow> finalize E new b = (Inr E, b))"
proof -
  have a: "L = E @ map to_json new \<and>
      ledger_document (snd (finalize E new b)) = Some (JsonText (JArr (E @ map to_json new)))"
    if "new \<noteq> []" "fst (finalize E new b) = Inr L"
  proof -
    obtain r b1 where s: "save_articles_to_box (E @ map to_json new) b = (r, b1)"
      by (cases "save_articles_to_box (E @ map to_json new) b")
    with that obtain u where r: "r = Inr u" and L: "L = E @ map to_json new"
      by (cases r) (auto simp: finalize_def Let_def)
    from s r have "fst (save_articles_to_box (E @ map to_json new) b) = Inr u" by simp
    from save_articles_to_box_document [OF this] s r that(1) L show ?thesis
      by (simp add: finalize_def Let_def json_dumps_def)
  qed
  have b: "fst (finalize E new b) = Inr (E @ map to_json new)"
    if "new \<noteq> []" "online b" "only_files b"
    using save_articles_to_box_ok [OF that(2,3), of "E @ map to_json new"] that(1)
    by (cases "save_articles_to_box (E @ map to_json new) b") (simp add: finalize_def Let_def)
  have c: "finalize E new b = (Inr E, b)" if "new = []"
    using that by (simp add: finalize_def)
  from a b c show ?thesis by blast
qed

theorem finalize_appends_and_overwrites_witness:
  "[record_c] \<noteq> [] \<and> online ledger_ab_box \<and> only_files ledger_ab_box \<and>
   fst (finalize ledger_ab [record_c] ledger_ab_box) = Inr (ledger_ab @ [to_json record_c]) \<and>
   ledger_document (snd (finalize ledger_ab [record_c] ledger_ab_box)) =
     Some (JsonText (JArr (ledger_ab @ [to_json record_c]))) \<and>
   finalize ledger_ab [] ledger_ab_box = (Inr ledger_ab, ledger_ab_box)"
proof -
  have a: "online ledger_ab_box" by (simp add: ledger_ab_box_def)
  have b: "only_files ledger_ab_box" by (simp add: ledger_ab_box_def only_files_def)
  have c: "[record_c] \<noteq> []" by simp
  note t = finalize_appends_and_overwrites
    [of "[record_c]" ledger_ab ledger_ab_box "ledger_ab @ map to_json [record_c]"]
  from t a b c have d: "fst (finalize ledger_ab [record_c] ledger_ab_box) =
      Inr (ledger_ab @ map to_json [record_c])" by blast
  with t c have e: "ledger_document (snd (finalize ledger_ab [record_c] ledger_ab_box)) =
      Some (JsonText (JArr (ledger_ab @ map to_json [record_c])))" by blast
  from finalize_appends_and_overwrites [of "[]" ledger_ab ledger_ab_box]
  have f: "finalize ledger_ab [] ledger_ab_box = (Inr ledger_ab, ledger_ab_box)" by blast
  from a b c d e f show ?thesis by simp
qed

section \<open>The pipeline driver: results\<close>

lemma get_seen_urls_skip:
  assumes "dict_get r ''id'' = Inr v" and "\<not> truthy v"
  shows "get_seen_urls (xs @ r # ys) = get_seen_urls (xs @ ys)"
  using assms by (induction xs) (simp_all split: sum.splits)

lemma get_seen_urls_set:
  "get_seen_urls articles = Inr S \<Longrightarrow>
     S = {v. \<exists>a \<in> set articles. dict_get a ''id'' = Inr v \<and> truthy v}"
proof (induction articles arbitrary: S)
  case Nil
  then show ?case by simp
next
  case (Cons a articles)
  then show ?case
    by (auto split: sum.splits if_splits)
qed

lemma get_seen_urls_dicts:
  "get_seen_urls articles = Inr S \<Longrightarrow> a \<in> set articles \<Longrightarrow> \<exists>v. dict_get a ''id'' = Inr v"
  by (induction articles arbitrary: S) (auto split: sum.splits if_splits)

lemma length_sha16: "length (sha16 u) = 16"
  by (simp add: sha16_def length_hexdigest)

lemma try_item_cases:
  "(new_articles (try_item item url key resp st) = new_articles st \<and>
    seen (try_item item url key resp st) = seen st) \<or>
   (\<exists>rec. rec_id rec = key \<and> rec_url rec = url \<and>
      new_articles (try_item item url key resp st) = new_articles st @ [rec] \<and>
      seen (try_item item url key resp st) = insert (JStr key) (seen st))"
  by (auto simp: try_item_def Let_def split: sum.splits prod.splits)

lemma process_item_cases:
  "(new_articles (process_item st entry) = new_articles st \<and>
    seen (process_item st entry) = seen st) \<or>
   (\<exists>rec url. rec_id rec = sha16 url \<and> rec_url rec = url \<and> JStr (sha16 url) \<notin> seen st \<and>
      new_articles (process_item st entry) = new_articles st @ [rec] \<and>
      seen (process_item st entry) = insert (JStr (sha16 url)) (seen st))"
proof (cases entry)
  case (Pair item resp)
  show ?thesis
  proof (cases "item_url item")
    case None
    with Pair show ?thesis by (simp add: process_item_def)
  next
    case (Some url)
    show ?thesis
    proof (cases "url = [] \<or> JStr (sha16 url) \<in> seen st")
      case True
      with Pair Some show ?thesis by (auto simp: process_item_def Let_def)
    next
      case False
      with Pair Some have "process_item st entry = try_item item url (sha16 url) resp st"
        by (simp add: process_item_def Let_def)
      with False try_item_cases [of item url "sha16 url" resp st] show ?thesis
        by auto
    qed
  qed
qed

lemma process_item_invariant:
  assumes "seen st = seen0 \<union> JStr ` set (map rec_id (new_articles st))"
    and "distinct (map rec_id (new_articles st))"
    and "\<forall>r \<in> set (new_articles st). JStr (rec_id r) \<notin> seen0 \<and> length (rec_id r) = 16"
  shows "seen (process_item st entry) =
           seen0 \<union> JStr ` set (map rec_id (new_articles (process_item st entry))) \<and>
         distinct (map rec_id (new_articles (process_item st entry))) \<and>
         (\<forall>r \<in> set (new_articles (process_item st entry)).
            JStr (rec_id r) \<notin> seen0 \<and> length (rec_id r) = 16)"
  using process_item_cases [of st entry]
proof
  assume "new_articles (process_item st entry) = new_articles st \<and>
    seen (process_item st entry) = seen st"
  with assms show ?thesis by simp
next
  assume "\<exists>rec url. rec_id rec = sha16 url \<and> rec_url rec = url \<and> JStr (sha16 url) \<notin> seen st \<and>
      new_articles (process_item st entry) = new_articles st @ [rec] \<and>
      seen (process_item st entry) = insert (JStr (sha16 url)) (seen st)"
  then obtain rec url where r: "rec_id rec = sha16 url" "JStr (sha16 url) \<notin> seen st"
    "new_articles (process_item st entry) = new_articles st @ [rec]"
    "seen (process_item st entry) = insert (JStr (sha16 url)) (seen st)" by blast
  from r(2) assms(1) have n: "JStr (sha16 url) \<notin> seen0" "sha16 url \<notin> set (map rec_id (new_articles st))"
    by auto
  from r n assms show ?thesis by (auto simp: length_sha16)
qed

lemma run_invariant:
  assumes "seen st = seen0 \<union> JStr ` set (map rec_id (new_articles st))"
    and "distinct (map rec_id (new_articles st))"
    and "\<forall>r \<in> set (new_articles st). JStr (rec_id r) \<notin> seen0 \<and> length (rec_id r) = 16"
  shows "distinct (map rec_id (new_articles (foldl process_item st feed))) \<and>
         (\<forall>r \<in> set (new_articles (foldl process_item st feed)).
            JStr (rec_id r) \<notin> seen0 \<and> length (rec_id r) = 16)"
  using assms
proof (induction feed arbitrary: st)
  case Nil
  then show ?case by simp
next
  case (Cons entry feed)
  from process_item_invariant [OF Cons.prems, of entry] show ?case
    by (simp only: foldl_Cons) (rule Cons.IH, simp_all)
qed

lemma id_of_to_json: "id_of (to_json r) = JStr (rec_id r)"
  by (simp add: id_of_def to_json_def)

lemma finalize_result:
  "fst (finalize articles new b) = Inr ledger \<Longrightarrow> ledger = articles @ map to_json new"
  by (cases "save_articles_to_box (articles @ map to_json new) b")
    (auto simp: finalize_def Let_def split: if_splits sum.splits)

text \<open>
  Claim C2. When a run loads a ledger whose records have pairwise distinct id fields and
  reaches its end (the ledger loads, the seen set is built, the final save goes through), the
  ledger it ends with is the loaded one followed by the new records, and its id fields are
  again pairwise distinct: an item whose id is in the seen set is skipped, and the id of an
  admitted item joins the seen set at once, so the same URL met twice in one feed is admitted
  once.
\<close>

theorem main_keeps_ids_distinct:
  assumes "fst (main b feed online_at_end) = Inr ledger"
    and "fst (load_articles_from_box b) = Inr articles"
    and "distinct (map id_of articles)"
  shows "distinct (map id_of ledger) \<and>
         ledger = articles @ map to_json (new_articles (snd (main b feed online_at_end)))"
proof -
  obtain b1 where l: "load_articles_from_box b = (Inr articles, b1)"
    using assms(2) by (cases "load_articles_from_box b") auto
  with assms(1) obtain seen0 where s: "get_seen_urls articles = Inr seen0"
    by (cases "get_seen_urls articles") (auto simp: main_def)
  define st0 where "st0 = \<lparr>seen = seen0, new_articles = [], remote = b1, out = Map.empty\<rparr>"
  define st where "st = foldl process_item st0 feed"
  obtain r b2 where f: "finalize articles (new_articles st) ((remote st)\<lparr>online := online_at_end\<rparr>) = (r, b2)"
    by (cases "finalize articles (new_articles st) ((remote st)\<lparr>online := online_at_end\<rparr>)")
  from l s f have m: "main b feed online_at_end = (r, st\<lparr>remote := b2\<rparr>)"
    by (simp add: main_def st_def st0_def Let_def)
  with assms(1) f have "fst (finalize articles (new_articles st) ((remote st)\<lparr>online := online_at_end\<rparr>)) = Inr ledger"
    by simp
  then have ledger: "ledger = articles @ map to_json (new_articles st)"
    by (rule finalize_result)
  have inv: "distinct (map rec_id (new_articles st)) \<and>
      (\<forall>r \<in> set (new_articles st). JStr (rec_id r) \<notin> seen0 \<and> length (rec_id r) = 16)"
    unfolding st_def by (rule run_invariant) (simp_all add: st0_def)
  have new_ids: "map id_of (map to_json (new_articles st)) = map JStr (map rec_id (new_articles st))"
    by (simp add: id_of_to_json)
  have "distinct (map JStr (map rec_id (new_articles st)))"
    using inv by (simp add: distinct_map inj_on_def)
  moreover have "set (map id_of articles) \<inter> set (map JStr (map rec_id (new_articles st))) = {}"
  proof (rule ccontr)
    assume "\<not> ?thesis"
    then obtain a r where a: "a \<in> set articles" and r: "r \<in> set (new_articles st)"
      and eq: "id_of a = JStr (rec_id r)" by auto
    from get_seen_urls_dicts [OF s a] obtain v where v: "dict_get a ''id'' = Inr v" by blast
    with eq have "v = JStr (rec_id r)" by (simp add: id_of_def)
    moreover from inv r have "length (rec_id r) = 16" "JStr (rec_id r) \<notin> seen0" by auto
    ultimately have "truthy v" "v \<notin> seen0" by auto
    with get_seen_urls_set [OF s] a v show False by blast
  qed
  ultimately have "distinct (map id_of ledger)"
    using assms(3) by (simp add: ledger id_of_to_json comp_def)
  with ledger m show ?thesis by simp
qed

lemma sha16_not_short: "length s \<noteq> 16 \<Longrightarrow> sha16 u \<noteq> s"
  using length_sha16 [of u] by auto

lemma only_files_box_upload_file:
  assumes "only_files b"
  shows "only_files (snd (box_upload_file bytes name b))"
  using assms
  by (auto simp: box_upload_file_def get_items_def called_def upload_stream_def
      update_contents_with_stream_def only_files_def list_all_iff
      split: option.splits)

lemma try_item_admits:
  assumes "extract_text resp = Inr (t, text)"
    and "looks_relevant (if t \<noteq> [] then t else item_title item) text"
    and "disk_ok resp" and "box_online resp" and "only_files (remote st)"
  shows "new_articles (try_item item url key resp st) =
           new_articles st @
             [\<lparr>rec_id = key, rec_source = item_source item, rec_url = url,
               rec_title = (if t \<noteq> [] then t else item_title item),
               rec_published = item_published item, rec_saved_at = now resp,
               rec_content_preview = content_preview (strip text)\<rparr>] \<and>
         seen (try_item item url key resp st) = insert (JStr key) (seen st) \<and>
         only_files (remote (try_item item url key resp st))"
proof -
  define title where "title = (if t \<noteq> [] then t else item_title item)"
  define rec where "rec = \<lparr>rec_id = key, rec_source = item_source item, rec_url = url,
      rec_title = title, rec_published = item_published item, rec_saved_at = now resp,
      rec_content_preview = content_preview (strip text)\<rparr>"
  define filename where "filename = md_filename (item_published item) (today resp) key title"
  define st1 where "st1 = st\<lparr>out := (out st)(filename \<mapsto> record_md rec (strip text))\<rparr>"
  define up where "up = box_upload_file (record_md rec (strip text)) filename
      ((remote st1)\<lparr>online := box_online resp\<rparr>)"
  have o: "online ((remote st1)\<lparr>online := box_online resp\<rparr>)"
    "only_files ((remote st1)\<lparr>online := box_online resp\<rparr>)"
    using assms(4,5) by (simp_all add: only_files_def st1_def)
  have "fst up = Inr ()" unfolding up_def using o by (rule box_upload_file_ok)
  then obtain b' where up: "up = (Inr (), b')" by (cases up) auto
  have "only_files (snd up)" unfolding up_def using o(2) by (rule only_files_box_upload_file)
  with up have files: "only_files b'" by simp
  have "try_item item url key resp st =
      st1\<lparr>remote := b', new_articles := new_articles st1 @ [rec],
          seen := insert (JStr key) (seen st1)\<rparr>"
    using assms(1,2,3) up
    unfolding up_def st1_def filename_def rec_def title_def
    by (simp add: try_item_def Let_def)
  with files show ?thesis
    by (simp add: st1_def rec_def title_def)
qed

lemma process_item_skip:
  "item_url item = Some url \<Longrightarrow> JStr (sha16 url) \<in> seen st \<Longrightarrow>
     process_item st (item, resp) = st"
  by (simp add: process_item_def Let_def)

lemma process_item_try:
  "item_url item = Some url \<Longrightarrow> url \<noteq> [] \<Longrightarrow> JStr (sha16 url) \<notin> seen st \<Longrightarrow>
     process_item st (item, resp) = try_item item url (sha16 url) resp st"
  by (simp add: process_item_def Let_def)

lemma example_extract:
  "extract_text example_response =
     Inr (''Board hears rental appeal'',
          ''The board of zoning adjustments heard an appeal on Tuesday over a short-term '' @
          ''rental permit in the Marigny, and deferred its vote.'')"
  by code_simp

lemma example_relevant:
  "looks_relevant ''Board hears rental appeal''
     (''The board of zoning adjustments heard an appeal on Tuesday over a short-term '' @
      ''rental permit in the Marigny, and deferred its vote.'')"
  by code_simp

lemma example_preview:
  "content_preview (strip
     (''The board of zoning adjustments heard an appeal on Tuesday over a short-term '' @
      ''rental permit in the Marigny, and deferred its vote.'')) =
   ''The board of zoning adjustments heard an appeal on Tuesday over a short-term '' @
      ''rental permit in the Marigny, and deferred its vote.''"
  by code_simp

lemma example_try_item:
  assumes "only_files (remote st)"
  shows "new_articles (try_item example_item ''https://example.com/a''
           (sha16 ''https://example.com/a'') example_response st) =
           new_articles st @ [example_record] \<and>
         seen (try_item example_item ''https://example.com/a''
           (sha16 ''https://example.com/a'') example_response st) =
           insert (JStr (sha16 ''https://example.com/a'')) (seen st) \<and>
         only_files (remote (try_item example_item ''https://example.com/a''
           (sha16 ''https://example.com/a'') example_response st))"
proof -
  have r: "looks_relevant
      (if ''Board hears rental appeal'' \<noteq> [] then ''Board hears rental appeal''
       else item_title example_item)
      (''The board of zoning adjustments heard an appeal on Tuesday over a short-term '' @
       ''rental permit in the Marigny, and deferred its vote.'')"
    using example_relevant by simp
  have d: "disk_ok example_response" "box_online example_response"
    by (simp_all add: example_response_def)
  from try_item_admits [OF example_extract r d assms,
      of "''https://example.com/a''" "sha16 ''https://example.com/a''"]
  show ?thesis
    unfolding example_preview
    by (simp add: example_record_def example_item_def example_response_def)
qed

lemma finalize_goes_through:
  assumes "new \<noteq> []" and "online b" and "only_files b"
  shows "fst (finalize E new b) = Inr (E @ map to_json new)"
  using save_articles_to_box_ok [OF assms(2,3), of "E @ map to_json new"] assms(1)
  by (cases "save_articles_to_box (E @ map to_json new) b") (simp add: finalize_def Let_def)

text \<open>
  A run over a ledger of two records and a feed that gives the same entry twice: the entry is
  admitted once, and the ids of the ledger at the end are distinct.
\<close>

theorem main_keeps_ids_distinct_witness:
  "fst (main ledger_ab_box [(example_item, example_response), (example_item, example_response)] True) =
     Inr (ledger_ab @ [to_json example_record]) \<and>
   fst (load_articles_from_box ledger_ab_box) = Inr ledger_ab \<and>
   distinct (map id_of ledger_ab) \<and>
   distinct (map id_of (ledger_ab @ [to_json example_record]))"
proof -
  define b1 where "b1 = called (GetContent 1) (called GetItems ledger_ab_box)"
  define st0 where "st0 = \<lparr>seen = {JStr ''a'', JStr ''b''}, new_articles = [], remote = b1,
      out = Map.empty\<rparr>"
  define st1 where "st1 = try_item example_item ''https://example.com/a''
      (sha16 ''https://example.com/a'') example_response st0"
  have l: "load_articles_from_box ledger_ab_box = (Inr ledger_ab, b1)"
    by (simp add: load_articles_from_box_def get_items_def find_file_def file_content_def
        called_def ledger_ab_box_def b1_def)
  have s: "get_seen_urls ledger_ab = Inr {JStr ''a'', JStr ''b''}"
    by (simp add: ledger_ab_def)
  have u: "item_url example_item = Some ''https://example.com/a''"
    by (simp add: example_item_def)
  have f0: "only_files (remote st0)"
    by (simp add: st0_def b1_def called_def ledger_ab_box_def only_files_def)
  have "JStr (sha16 ''https://example.com/a'') \<notin> seen st0"
    using sha16_not_short [of "''a''"] sha16_not_short [of "''b''"] by (simp add: st0_def)
  then have p1: "process_item st0 (example_item, example_response) = st1"
    unfolding st1_def using u by (simp add: process_item_try)
  from example_try_item [OF f0] have t: "new_articles st1 = [example_record]"
    "JStr (sha16 ''https://example.com/a'') \<in> seen st1" "only_files (remote st1)"
    by (simp_all add: st1_def st0_def)
  from u t(2) have p2: "process_item st1 (example_item, example_response) = st1"
    by (rule process_item_skip)
  have run: "foldl process_item st0
      [(example_item, example_response), (example_item, example_response)] = st1"
    by (simp add: p1 p2)
  have "fst (finalize ledger_ab (new_articles st1) ((remote st1)\<lparr>online := True\<rparr>)) =
      Inr (ledger_ab @ map to_json (new_articles st1))"
    using t(3) by (intro finalize_goes_through) (simp_all add: t(1) only_files_def)
  then have m: "fst (main ledger_ab_box
      [(example_item, example_response), (example_item, example_response)] True) =
      Inr (ledger_ab @ [to_json example_record])"
    using l s run by (auto simp: main_def st0_def [symmetric] t(1) split: prod.splits)
  have l': "fst (load_articles_from_box ledger_ab_box) = Inr ledger_ab" using l by simp
  have d: "distinct (map id_of ledger_ab)" by (simp add: ledger_ab_def id_of_def)
  from main_keeps_ids_distinct [OF m l' d]
  have "distinct (map id_of (ledger_ab @ [to_json example_record]))" by (rule conjunct1)
  with m l' d show ?thesis by blast
qed

text \<open>
  Claim C10. A ledger record whose id field is absent, empty or otherwise falsy adds nothing
  to the seen set: the set built from the ledger is the set built without that record. So when
  no other record carries the id of a feed item's URL, the item is not skipped: if its page is
  extracted and found relevant and the local write and the upload go through, a new record
  with that id and that URL is appended.
\<close>

theorem seen_ids_skip_falsy:
  assumes "dict_get r ''id'' = Inr v" and "\<not> truthy v"
    and "get_seen_urls (xs @ ys) = Inr S" and "JStr (sha16 url) \<notin> S"
    and "item_url item = Some url" and "url \<noteq> []"
    and "extract_text resp = Inr (t, text)"
    and "looks_relevant (if t \<noteq> [] then t else item_title item) text"
    and "disk_ok resp" and "box_online resp" and "only_files b"
  shows "get_seen_urls (xs @ r # ys) = Inr S \<and>
         map rec_id (new_articles (process_item
           \<lparr>seen = S, new_articles = [], remote = b, out = Map.empty\<rparr> (item, resp))) =
           [sha16 url] \<and>
         map rec_url (new_articles (process_item
           \<lparr>seen = S, new_articles = [], remote = b, out = Map.empty\<rparr> (item, resp))) = [url]"
proof -
  let ?st = "\<lparr>seen = S, new_articles = [], remote = b, out = Map.empty\<rparr>"
  have a: "get_seen_urls (xs @ r # ys) = Inr S"
    using get_seen_urls_skip [OF assms(1,2)] assms(3) by simp
  have "process_item ?st (item, resp) = try_item item url (sha16 url) resp ?st"
    using assms(4,5,6) by (simp add: process_item_try)
  moreover have "only_files (remote ?st)" using assms(11) by simp
  note try_item_admits [OF assms(7,8,9,10) this, of url "sha16 url"]
  ultimately show ?thesis using a by simp
qed

theorem seen_ids_skip_falsy_witness:
  "dict_get record_without_id ''id'' = Inr JNull \<and> \<not> truthy JNull \<and>
   get_seen_urls ([] @ []) = Inr {} \<and>
   get_seen_urls ([] @ record_without_id # []) = Inr {} \<and>
   map rec_id (new_articles (process_item
     \<lparr>seen = {}, new_articles = [], remote = \<lparr>online = True, folder_items = [], calls = []\<rparr>,
      out = Map.empty\<rparr> (example_item, example_response))) = [sha16 ''https://example.com/a''] \<and>
   map rec_url (new_articles (process_item
     \<lparr>seen = {}, new_articles = [], remote = \<lparr>online = True, folder_items = [], calls = []\<rparr>,
      out = Map.empty\<rparr> (example_item, example_response))) = [''https://example.com/a'']"
proof -
  have a: "dict_get record_without_id ''id'' = Inr JNull"
    by (simp add: record_without_id_def)
  have b: "\<not> truthy JNull" by simp
  have c: "get_seen_urls ([] @ []) = Inr {}" by simp
  have d: "JStr (sha16 ''https://example.com/a'') \<notin> {}" by simp
  have e: "item_url example_item = Some ''https://example.com/a''"
    by (simp add: example_item_def)
  have f: "''https://example.com/a'' \<noteq> []" by simp
  have r: "looks_relevant
      (if ''Board hears rental appeal'' \<noteq> [] then ''Board hears rental appeal''
       else item_title example_item)
      (''The board of zoning adjustments heard an appeal on Tuesday over a short-term '' @
       ''rental permit in the Marigny, and deferred its vote.'')"
    using example_relevant by simp
  have g: "disk_ok example_response" "box_online example_response"
    by (simp_all add: example_response_def)
  have h: "only_files \<lparr>online = True, folder_items = [], calls = []\<rparr>"
    by (simp add: only_files_def)
  from seen_ids_skip_falsy [OF a b c d e f example_extract r g h] a b c show ?thesis
    by simp
qed

section \<open>The document format: results\<close>

lemma universal_newlines_id: "CR \<notin> set s \<Longrightarrow> universal_newlines s = s"
  by (induction s rule: universal_newlines.induct) auto

lemma split_aux_Nil: "split_aux sep acc [] = [rev acc]"
  by (subst split_aux.simps) simp

lemma split_aux_at_sep:
  "sep \<noteq> [] \<Longrightarrow> split_aux sep acc (sep @ rest) = rev acc # split_aux sep [] rest"
  by (subst split_aux.simps) simp

lemma split_aux_step:
  "\<not> prefix sep (c # s) \<Longrightarrow> split_aux sep acc (c # s) = split_aux sep (c # acc) s"
  by (subst split_aux.simps) simp

lemma prefix_take:
  assumes "prefix us v" and "length us \<le> n"
  shows "prefix us (take n v)"
proof -
  from assms(1) obtain w where "v = us @ w" by (auto simp: prefix_def)
  with assms(2) show ?thesis by simp
qed

lemma prefix_across:
  assumes "prefix sep (u @ v)" and "u \<noteq> []"
  shows "prefix sep (u @ take (length sep - 1) v)"
  using assms(1) unfolding prefix_append [of sep u v]
proof
  assume "prefix sep u"
  then show ?thesis by (simp add: prefix_append)
next
  assume "\<exists>us. sep = u @ us \<and> prefix us v"
  then obtain us where us: "sep = u @ us" "prefix us v" by blast
  with assms(2) have "length us \<le> length sep - 1" by (cases u) auto
  with us(2) have "prefix us (take (length sep - 1) v)" by (rule prefix_take)
  with us(1) show ?thesis by simp
qed

lemma split_aux_no_sep:
  assumes "\<not> sublist sep (a @ take (length sep - 1) rest)"
  shows "split_aux sep acc (a @ rest) = split_aux sep (rev a @ acc) rest"
  using assms
proof (induction a arbitrary: acc)
  case Nil
  then show ?case by simp
next
  case (Cons x a)
  have "\<not> prefix sep ((x # a) @ rest)"
  proof
    assume "prefix sep ((x # a) @ rest)"
    then have "prefix sep ((x # a) @ take (length sep - 1) rest)"
      by (rule prefix_across) simp
    with Cons.prems show False by (meson prefix_imp_sublist)
  qed
  then have "split_aux sep acc ((x # a) @ rest) = split_aux sep (x # acc) (a @ rest)"
    by (simp add: split_aux_step)
  moreover from Cons.prems have "\<not> sublist sep (a @ take (length sep - 1) rest)"
    by (simp add: sublist_Cons_right)
  ultimately show ?case using Cons.IH [of "x # acc"] by simp
qed

lemma split_piece:
  assumes "sep \<noteq> []" and "\<not> sublist sep (a @ butlast sep)"
  shows "split sep (a @ sep @ rest) = a # split sep rest"
proof -
  have "take (length sep - 1) (sep @ rest) = butlast sep"
    by (simp add: butlast_conv_take)
  with assms(2) have "split_aux sep [] (a @ sep @ rest) = split_aux sep (rev a @ []) (sep @ rest)"
    by (intro split_aux_no_sep) simp
  with assms(1) show ?thesis by (simp add: split_def split_aux_at_sep)
qed

lemma split_last_piece:
  assumes "\<not> sublist sep a"
  shows "split sep a = [a]"
  using split_aux_no_sep [of sep a "[]" "[]"] assms by (simp add: split_def split_aux_Nil)

lemma lstrip_Cons: "lstrip (c # s) = (if isspace c then lstrip s else c # s)"
  by (simp add: lstrip_def)

lemma rstrip_append:
  "rstrip (x @ y) = (if rstrip y = [] then rstrip x else x @ rstrip y)"
  by (auto simp: rstrip_def dropWhile_append)

lemma length_lstrip: "length (lstrip s) \<le> length s"
  by (simp add: lstrip_def length_dropWhile_le)

lemma length_rstrip: "length (rstrip s) \<le> length s"
  using length_dropWhile_le [of isspace "rev s"] by (simp add: rstrip_def)

lemma strip_fixed:
  assumes "strip v = v"
  shows "lstrip v = v" and "rstrip v = v"
proof -
  have "length v = length (rstrip (lstrip v))" using assms by (simp add: strip_def)
  also have "\<dots> \<le> length (lstrip v)" by (rule length_rstrip)
  finally have "length (lstrip v) = length v" using length_lstrip [of v] by simp
  moreover have "suffix (lstrip v) v" by (simp add: lstrip_def suffix_dropWhile)
  ultimately show l: "lstrip v = v"
    by (metis suffix_def append_eq_append_conv append_Nil)
  with assms show "rstrip v = v" by (simp add: strip_def)
qed

lemma strip_fixed_ends:
  assumes "strip v = v" and "v \<noteq> []"
  shows "\<not> isspace (hd v)" and "rstrip v \<noteq> []"
proof -
  from strip_fixed [OF assms(1)] have l: "lstrip v = v" and r: "rstrip v = v" by simp_all
  show "\<not> isspace (hd v)"
  proof (cases v)
    case Nil
    with assms(2) show ?thesis by simp
  next
    case (Cons a list)
    show ?thesis
    proof
      assume "isspace (hd v)"
      with Cons l have "lstrip list = a # list" by (simp add: lstrip_Cons)
      with length_lstrip [of list] show False by simp
    qed
  qed
  from r assms(2) show "rstrip v \<noteq> []" by simp
qed

lemma isspace_LF: "isspace LF"
  by (simp add: isspace_def LF_def)

lemma isspace_space: "isspace CHR '' ''"
  by (simp add: isspace_def)

lemma rstrip_Nil: "rstrip [] = []"
  by (simp add: rstrip_def)

lemma rstrip_LF: "rstrip [LF] = []"
  by (simp add: rstrip_def isspace_LF)

lemma strip_block:
  assumes "y \<noteq> []" and "\<not> isspace (hd y)" and "rstrip l \<noteq> []"
  shows "strip (LF # y @ l @ [LF]) = y @ rstrip l"
proof -
  from assms(1,2) have "lstrip (LF # y @ l @ [LF]) = y @ l @ [LF]"
    by (cases y) (simp_all add: lstrip_Cons isspace_LF)
  moreover have "rstrip (y @ l @ [LF]) = y @ rstrip l"
    using assms(3) by (simp add: rstrip_append rstrip_LF)
  ultimately show ?thesis by (simp add: strip_def)
qed

lemma strip_body:
  assumes "strip body = body"
  shows "strip (LF # LF # body @ [LF]) = body"
proof (cases "body = []")
  case True
  then show ?thesis by (simp add: strip_def lstrip_Cons isspace_LF lstrip_def rstrip_Nil)
next
  case False
  from strip_fixed_ends [OF assms False] strip_fixed(2) [OF assms]
  have h: "\<not> isspace (hd body)" and r: "rstrip body = body" by simp_all
  from False h have "lstrip (LF # LF # body @ [LF]) = body @ [LF]"
    by (cases body) (simp_all add: lstrip_Cons isspace_LF)
  moreover have "rstrip (body @ [LF]) = body"
    using r by (simp add: rstrip_append rstrip_LF)
  ultimately show ?thesis by (simp add: strip_def)
qed

lemma sublist_singleton: "sublist [c] s \<longleftrightarrow> c \<in> set s"
  by (induction s) (auto simp: sublist_Cons_right)

lemma split_line:
  assumes "LF \<notin> set l"
  shows "split [LF] (l @ LF # rest) = l # split [LF] rest"
  using split_piece [of "[LF]" l rest] assms by (simp add: sublist_singleton)

lemma split_last_line:
  assumes "LF \<notin> set l"
  shows "split [LF] l = [l]"
  using assms by (intro split_last_piece) (simp add: sublist_singleton)

lemma takeWhile_upto: "c \<notin> set key \<Longrightarrow> takeWhile (\<lambda>x. x \<noteq> c) (key @ c # rest) = key"
  by (induction key) auto

lemma dropWhile_upto: "c \<notin> set key \<Longrightarrow> dropWhile (\<lambda>x. x \<noteq> c) (key @ c # rest) = c # rest"
  by (induction key) auto

lemma parse_line:
  assumes "CHR '':'' \<notin> set key" and "strip key = key" and "strip v = v"
  shows "parse_frontmatter_line fm (key @ '': '' @ v) = fm(key \<mapsto> v)"
proof -
  have "takeWhile (\<lambda>c. c \<noteq> CHR '':'') (key @ '': '' @ v) = key"
    using assms(1) by (simp add: takeWhile_upto)
  moreover have "dropWhile (\<lambda>c. c \<noteq> CHR '':'') (key @ '': '' @ v) = '': '' @ v"
    using assms(1) by (simp add: dropWhile_upto)
  moreover have "strip (CHR '' '' # v) = v"
    using assms(3) by (simp add: strip_def lstrip_Cons isspace_space)
  ultimately show ?thesis
    using assms(2) by (simp add: parse_frontmatter_line_def split_colon_once_def)
qed

lemma parse_line_empty:
  assumes "CHR '':'' \<notin> set key" and "strip key = key"
  shows "parse_frontmatter_line fm (key @ '':'') = fm(key \<mapsto> [])"
proof -
  have "takeWhile (\<lambda>c. c \<noteq> CHR '':'') (key @ '':'') = key"
    using assms(1) by (simp add: takeWhile_upto)
  moreover have "dropWhile (\<lambda>c. c \<noteq> CHR '':'') (key @ '':'') = '':''"
    using assms(1) by (simp add: dropWhile_upto)
  moreover have "strip [] = []" by (simp add: strip_def lstrip_def rstrip_def)
  ultimately show ?thesis
    using assms(2) by (simp add: parse_frontmatter_line_def split_colon_once_def)
qed

lemma dashes_Cons: "c \<noteq> CHR ''-'' \<Longrightarrow> sublist ''---'' (c # s) \<longleftrightarrow> sublist ''---'' s"
  by (simp add: sublist_Cons_right)

lemma dashes_around_LF:
  "sublist ''---'' (a @ LF # b) \<longleftrightarrow> sublist ''---'' a \<or> sublist ''---'' b"
  using sublist_around_sep [of LF "''---''" a b] by (simp add: LF_def)

lemma dashes_short: "\<not> sublist ''---'' ''--''" "\<not> sublist ''---'' []"
  by (simp_all add: sublist_Cons_right)

lemma plain_field_facts:
  assumes "plain_field v"
  shows "LF \<notin> set v" and "CR \<notin> set v" and "\<not> sublist ''---'' v" and "strip v = v"
  using assms by (simp_all add: plain_field_def contains_sublist)

lemma key_facts:
  "CHR '':'' \<notin> set ''source''" "strip ''source'' = ''source''"
  "CHR '':'' \<notin> set ''title''" "strip ''title'' = ''title''"
  "CHR '':'' \<notin> set ''url''" "strip ''url'' = ''url''"
  "CHR '':'' \<notin> set ''published''" "strip ''published'' = ''published''"
  "CHR '':'' \<notin> set ''saved_at''" "strip ''saved_at'' = ''saved_at''"
  by (simp_all add: strip_def lstrip_def rstrip_def isspace_def)

lemma rstrip_last_line:
  assumes "strip v = v"
  shows "rstrip (''saved_at: '' @ v) = (if v = [] then ''saved_at:'' else ''saved_at: '' @ v)"
proof (cases "v = []")
  case True
  then show ?thesis by (simp add: rstrip_def isspace_def)
next
  case False
  with strip_fixed(2) [OF assms] show ?thesis
    by (simp only: rstrip_append) simp
qed

text \<open>
  The documents the reader does give back. When the five frontmatter fields of the record
  hold no newline, no carriage return and no run of three hyphens and have no whitespace at
  either end, and the body holds no carriage return and no run of three hyphens and has no
  whitespace at either end, reading the rendered document back gives exactly the five fields
  and the body.
\<close>

lemma read_document_round_trip:
  assumes "plain_field (rec_source rec)" and "plain_field (rec_title rec)"
    and "plain_field (rec_url rec)" and "plain_field (rec_published rec)"
    and "plain_field (rec_saved_at rec)" and "plain_body body"
  shows "read_document rec body = Some (frontmatter_of rec, body)"
proof -
  note S = plain_field_facts [OF assms(1)]
  note T = plain_field_facts [OF assms(2)]
  note U = plain_field_facts [OF assms(3)]
  note P = plain_field_facts [OF assms(4)]
  note A = plain_field_facts [OF assms(5)]
  from assms(6) have B: "CR \<notin> set body" "\<not> sublist ''---'' body" "strip body = body"
    by (simp_all add: plain_body_def contains_sublist)
  define Y where "Y = ''source: '' @ rec_source rec @ [LF] @ ''title: '' @ rec_title rec @ [LF] @
      ''url: '' @ rec_url rec @ [LF] @ ''published: '' @ rec_published rec @ [LF]"
  define L5 where "L5 = ''saved_at: '' @ rec_saved_at rec"
  define F where "F = LF # Y @ L5 @ [LF]"
  define D where "D = LF # LF # body @ [LF]"
  have doc: "record_md rec body = [] @ ''---'' @ F @ ''---'' @ D"
    by (simp add: record_md_def F_def Y_def L5_def D_def)
  have "CR \<notin> set (record_md rec body)"
    using S(2) T(2) U(2) P(2) A(2) B(1) by (simp add: record_md_def CR_def LF_def)
  then have read: "universal_newlines (record_md rec body) = record_md rec body"
    by (rule universal_newlines_id)
  have lf: "LF \<noteq> CHR ''-''" by (simp add: LF_def)
  have noF: "\<not> sublist ''---'' (F @ ''--'')"
    using S(3) T(3) U(3) P(3) A(3)
    by (simp add: F_def Y_def L5_def dashes_Cons dashes_around_LF dashes_short lf)
  have noD: "\<not> sublist ''---'' D"
    using B(2) by (simp add: D_def dashes_Cons dashes_around_LF dashes_short lf)
  have "split ''---'' D = [D]" using noD by (rule split_last_piece)
  moreover have "split ''---'' (F @ ''---'' @ D) = F # split ''---'' D"
    using noF by (intro split_piece) simp_all
  moreover have "split ''---'' ([] @ ''---'' @ F @ ''---'' @ D) = [] # split ''---'' (F @ ''---'' @ D)"
    by (intro split_piece) (simp_all add: dashes_short)
  ultimately have parts: "split ''---'' (record_md rec body) = [[], F, D]"
    by (simp only: doc)
  have r5: "rstrip L5 = (if rec_saved_at rec = [] then ''saved_at:'' else L5)"
    unfolding L5_def using A(4) by (rule rstrip_last_line)
  have ne: "rstrip L5 \<noteq> []" unfolding r5 by (simp add: L5_def)
  have "strip F = Y @ rstrip L5"
    unfolding F_def using _ _ ne by (rule strip_block) (simp_all add: Y_def isspace_def)
  also have "\<dots> = (''source: '' @ rec_source rec) @ LF # (''title: '' @ rec_title rec) @ LF #
      (''url: '' @ rec_url rec) @ LF # (''published: '' @ rec_published rec) @ LF # rstrip L5"
    by (simp add: Y_def)
  finally have block: "strip F = (''source: '' @ rec_source rec) @ LF # (''title: '' @ rec_title rec) @ LF #
      (''url: '' @ rec_url rec) @ LF # (''published: '' @ rec_published rec) @ LF # rstrip L5" .
  have l: "LF \<notin> set (''source: '' @ rec_source rec)" "LF \<notin> set (''title: '' @ rec_title rec)"
    "LF \<notin> set (''url: '' @ rec_url rec)" "LF \<notin> set (''published: '' @ rec_published rec)"
    "LF \<notin> set (rstrip L5)"
    unfolding r5 using S(1) T(1) U(1) P(1) A(1) by (simp_all add: L5_def) (simp_all add: LF_def)
  have lines: "split [LF] (strip F) =
      [''source: '' @ rec_source rec, ''title: '' @ rec_title rec, ''url: '' @ rec_url rec,
       ''published: '' @ rec_published rec, rstrip L5]"
    unfolding block
    by (simp only: split_line [OF l(1)] split_line [OF l(2)] split_line [OF l(3)]
        split_line [OF l(4)] split_last_line [OF l(5)])
  have last_line: "parse_frontmatter_line fm (rstrip L5) = fm(''saved_at'' \<mapsto> rec_saved_at rec)" for fm
  proof (cases "rec_saved_at rec = []")
    case True
    with parse_line_empty [OF key_facts(9,10), of fm] show ?thesis unfolding r5 by simp
  next
    case False
    with parse_line [OF key_facts(9,10) A(4), of fm] show ?thesis
      unfolding r5 by (simp add: L5_def)
  qed
  have fm: "foldl parse_frontmatter_line Map.empty (split [LF] (strip F)) = frontmatter_of rec"
    unfolding lines
    using parse_line [OF key_facts(1,2) S(4)] parse_line [OF key_facts(3,4) T(4)]
      parse_line [OF key_facts(5,6) U(4)] parse_line [OF key_facts(7,8) P(4)] last_line
    by (simp add: frontmatter_of_def)
  have body: "strip D = body" unfolding D_def using B(3) by (rule strip_body)
  show ?thesis
    by (simp add: read_document_def read parse_md_def parts fm body Let_def)
qed

lemma record_c_plain:
  "plain_field (rec_source record_c)" "plain_field (rec_title record_c)"
  "plain_field (rec_url record_c)" "plain_field (rec_published record_c)"
  "plain_field (rec_saved_at record_c)"
  by code_simp+

lemma two_paragraphs_plain: "plain_body (''The council voted.'' @ [LF, LF] @ ''It was close.'')"
  by code_simp

lemma read_document_round_trip_example:
  "plain_field (rec_source record_c) \<and> plain_field (rec_title record_c) \<and>
   plain_field (rec_url record_c) \<and> plain_field (rec_published record_c) \<and>
   plain_field (rec_saved_at record_c) \<and>
   plain_body (''The council voted.'' @ [LF, LF] @ ''It was close.'') \<and>
   read_document record_c (''The council voted.'' @ [LF, LF] @ ''It was close.'') =
     Some (frontmatter_of record_c, ''The council voted.'' @ [LF, LF] @ ''It was close.'')"
  using read_document_round_trip [OF record_c_plain two_paragraphs_plain]
    record_c_plain two_paragraphs_plain
  by blast

text \<open>
  Claim C4 at a body that holds three hyphens in a row. The reader splits the document at
  every run of three hyphens, with no limit, and takes the third part as the article: the
  document has four parts, the article read back is the body up to the hyphens, and the round
  trip fails.
\<close>

theorem read_document_hyphens_truncates:
  "length (split ''---'' (universal_newlines (record_md record_c ''yes --- no''))) = 4 \<and>
   map_option snd (read_document record_c ''yes --- no'') = Some ''yes'' \<and>
   read_document record_c ''yes --- no'' \<noteq> Some (frontmatter_of record_c, ''yes --- no'')"
proof -
  have a: "length (split ''---'' (universal_newlines (record_md record_c ''yes --- no''))) = 4"
    by code_simp
  have b: "map_option snd (read_document record_c ''yes --- no'') = Some ''yes''"
    by code_simp
  have c: "read_document record_c ''yes --- no'' \<noteq> Some (frontmatter_of record_c, ''yes --- no'')"
  proof
    assume "read_document record_c ''yes --- no'' =
      Some (frontmatter_of record_c, ''yes --- no'')"
    then have "map_option snd (read_document record_c ''yes --- no'') = Some ''yes --- no''"
      by simp
    with b show False by simp
  qed
  from a b c show ?thesis by blast
qed

section \<open>File names and dates: results\<close>

lemma md_filename_shape:
  "md_filename published day key title =
     (if published = [] then day else take 10 published) @ ''_'' @ key @ ''_'' @
     clean_title title @ ''.md''"
  by (simp add: md_filename_def published_date_def)

lemma md_filename_iso_published:
  "is_iso_date (published_date ''2024-03-05T10:00:00'' ''2024-03-06'')"
  "is_iso_date (published_date [] ''2024-03-06'')"
  by (simp_all add: published_date_def is_digit_def)

text \<open>
  Claim C3 at a feed entry as the configured RSS feeds give it. The published field is an
  RFC 822 date, its first 10 characters are not a date of the form YYYY-MM-DD, and they are
  the first component of the file name; the second component is the id and the extension is
  \<open>.md\<close>, as the claim says.
\<close>

theorem md_filename_rss_date:
  "md_filename (item_published example_item) (today example_response) key
     ''Board hears rental appeal'' =
     ''Tue, 05 Ma_'' @ key @ ''_Board hears rental appeal.md'' \<and>
   \<not> is_iso_date (published_date (item_published example_item) (today example_response))"
proof -
  have "clean_title ''Board hears rental appeal'' = ''Board hears rental appeal''"
    by code_simp
  then show ?thesis
    by (simp add: md_filename_def published_date_def example_item_def example_response_def)
qed

end
